theory Spec2Isabelle
  imports Complex_Main "HOL-Library.Char_ord" "HOL-Library.List_Lexorder" "HOL-Library.Sublist"
    "HOL-Library.Multiset"
begin

section \<open>Go strings and the slug transform (entity/slug.go)\<close>

text \<open>
  A Go string is a sequence of bytes; it is modelled as a \<^typ>\<open>string\<close>, one
  \<^typ>\<open>char\<close> per byte. Strings are compared bytewise and lexicographically, which is the
  order of \<open>Char_ord\<close> and \<open>List_Lexorder\<close>.
\<close>

definition isASCII :: "char \<Rightarrow> bool" where
  "isASCII c \<longleftrightarrow> of_char c < (128::nat)"

definition isUpperAZ :: "char \<Rightarrow> bool" where
  "isUpperAZ c \<longleftrightarrow> CHR ''A'' \<le> c \<and> c \<le> CHR ''Z''"

definition lowerByte :: "char \<Rightarrow> char" where
  "lowerByte c = (if isUpperAZ c then char_of (of_char c + (32::nat)) else c)"

text \<open>
  \<open>strings.ToLower\<close> of the Go library scans the bytes first: a string of ASCII bytes only
  is lowercased byte by byte (\<open>c += 'a' - 'A'\<close> on \<open>'A'..'Z'\<close>); any other string goes
  through the Unicode case tables, \<open>strings.Map(unicode.ToLower, s)\<close>. The tables are not part
  of the repository, so the non-ASCII path is the parameter \<open>umap\<close>: every result below
  holds for whatever it returns.
\<close>

definition ToLower :: "(string \<Rightarrow> string) \<Rightarrow> string \<Rightarrow> string" where
  "ToLower umap s = (if list_all isASCII s then map lowerByte s else umap s)"

text \<open>
  The character class of \<open>nonAlnum = regexp.MustCompile(`[^a-z0-9]+`)\<close>, complemented.
\<close>

definition isAlnum :: "char \<Rightarrow> bool" where
  "isAlnum c \<longleftrightarrow> (CHR ''a'' \<le> c \<and> c \<le> CHR ''z'') \<or> (CHR ''0'' \<le> c \<and> c \<le> CHR ''9'')"

text \<open>
  \<open>nonAlnum.ReplaceAllString(s, "-")\<close>: every maximal run of characters outside
  \<open>[a-z0-9]\<close> becomes one hyphen. Each byte of a multi-byte UTF-8 sequence, and each
  invalid byte, is at least 128 and so lies outside the class; a run of such characters is
  therefore the same run of bytes, and the replacement can be read bytewise.
\<close>

function replaceNonAlnum :: "string \<Rightarrow> string" where
  "replaceNonAlnum [] = []"
| "replaceNonAlnum (c # cs) =
     (if isAlnum c then c # replaceNonAlnum cs
      else CHR ''-'' # replaceNonAlnum (dropWhile (\<lambda>d. \<not> isAlnum d) cs))"
  by pat_completeness auto
termination
  by (relation "measure length") (auto simp: le_imp_less_Suc length_dropWhile_le)

text \<open>\<open>strings.Trim(s, "-")\<close>: leading and trailing hyphens are removed.\<close>

definition trimHyphens :: "string \<Rightarrow> string" where
  "trimHyphens s =
     rev (dropWhile (\<lambda>c. c = CHR ''-'') (rev (dropWhile (\<lambda>c. c = CHR ''-'') s)))"

definition ToSlug :: "(string \<Rightarrow> string) \<Rightarrow> string \<Rightarrow> string" where
  "ToSlug umap s = trimHyphens (replaceNonAlnum (ToLower umap s))"

text \<open>The shape of a canonical slug, for stating what \<open>ToSlug\<close> returns.\<close>

definition slugChar :: "char \<Rightarrow> bool" where
  "slugChar c \<longleftrightarrow> isAlnum c \<or> c = CHR ''-''"

fun noAdjacentHyphens :: "string \<Rightarrow> bool" where
  "noAdjacentHyphens (a # b # cs) \<longleftrightarrow>
     (a \<noteq> CHR ''-'' \<or> b \<noteq> CHR ''-'') \<and> noAdjacentHyphens (b # cs)"
| "noAdjacentHyphens _ \<longleftrightarrow> True"

section \<open>Entities and taxonomies (entity package, taxonomy/taxonomy.go)\<close>

text \<open>
  A field value is a Go \<open>interface{}\<close> as the YAML and JSON decoders produce it: a string,
  a \<open>[]string\<close>, a \<open>[]interface{}\<close>, a \<open>map[string]interface{}\<close>, or anything else
  (numbers, booleans, nil), which the code modelled here never looks into.
\<close>

datatype val =
    VString string
  | VStrings "string list"
  | VList "val list"
  | VMap "string \<Rightarrow> val option"
  | VOther

record Entity =
  Slug :: string
  SourceFile :: string
  Fields :: "string \<Rightarrow> val option"
  Sections :: "string \<Rightarrow> val option"
  Body :: string

text \<open>The fields of \<open>config.TaxonomyConfig\<close> that the taxonomy package and the builder read.\<close>

record TaxonomyConfig =
  tcName :: string
  tcLabel :: string
  tcLabelSingular :: string
  tcField :: string
  MultiValue :: bool
  MinEntities :: int
  LetterPageThreshold :: int
  Invert :: bool
  EnrichmentOverrideField :: string

text \<open>
  An entry holds pointers to entities. Entities are never written after loading, so a
  pointer is modelled by the entity it points to.
\<close>

record Entry =
  Name :: string
  eSlug :: string
  Entities :: "Entity list"

record Taxonomy =
  tName :: string
  tLabel :: string
  tLabelSingular :: string
  Config :: TaxonomyConfig
  Entries :: "Entry list"

subsection \<open>Value extraction\<close>

text \<open>
  \<open>strings.Split(s, sep)\<close> for a non-empty separator: \<open>s\<close> is cut at every occurrence of
  \<open>sep\<close>, found from the left and not overlapping. \<open>cur\<close> is the piece being read.
\<close>

function Split_from :: "string \<Rightarrow> string \<Rightarrow> string \<Rightarrow> string list" where
  "Split_from sep cur [] = [cur]"
| "Split_from sep cur (c # cs) =
     (if sep \<noteq> [] \<and> take (length sep) (c # cs) = sep
      then cur # Split_from sep [] (drop (length sep) (c # cs))
      else Split_from sep (cur @ [c]) cs)"
  by pat_completeness auto
termination
  by (relation "measure (\<lambda>(sep, cur, s). length s)") auto

definition Split :: "string \<Rightarrow> string \<Rightarrow> string list" where
  "Split s sep = Split_from sep [] s"

fun stringItems :: "val list \<Rightarrow> string list" where
  "stringItems [] = []"
| "stringItems (VString s # items) = s # stringItems items"
| "stringItems (_ # items) = stringItems items"

fun toStringSlice :: "val \<Rightarrow> string list" where
  "toStringSlice (VStrings val) = val"
| "toStringSlice (VList val) = stringItems val"
| "toStringSlice (VString val) = [val]"
| "toStringSlice _ = []"

text \<open>
  The loop of \<open>getEnrichmentOverrides\<close> over the items of the container: an item
  contributes when it is an object whose sub-field is a non-empty string.
\<close>

fun subFieldValues :: "string \<Rightarrow> val list \<Rightarrow> string list" where
  "subFieldValues subField [] = []"
| "subFieldValues subField (VMap m # items) =
     (case m subField of
        Some (VString s) \<Rightarrow>
          (if s \<noteq> [] then s # subFieldValues subField items
           else subFieldValues subField items)
      | _ \<Rightarrow> subFieldValues subField items)"
| "subFieldValues subField (_ # items) = subFieldValues subField items"

definition getEnrichmentOverrides :: "(string \<Rightarrow> val option) \<Rightarrow> string \<Rightarrow> string list" where
  "getEnrichmentOverrides data field =
     (case Split field ''[].'' of
        [arrayField, subField] \<Rightarrow>
          (case data arrayField of
             Some (VList items) \<Rightarrow> subFieldValues subField items
           | _ \<Rightarrow> [])
      | _ \<Rightarrow>
          (case data field of
             Some v \<Rightarrow> toStringSlice v
           | None \<Rightarrow> []))"

text \<open>
  The enrichment table is a \<open>map[string]map[string]interface{}\<close> that may be nil:
  \<open>None\<close> is the nil map.
\<close>

type_synonym enrichment = "(string \<Rightarrow> (string \<Rightarrow> val option) option) option"

definition lookupOverrides :: "Entity \<Rightarrow> TaxonomyConfig \<Rightarrow> enrichment \<Rightarrow> string list" where
  "lookupOverrides e tc enrichmentData =
     (if EnrichmentOverrideField tc \<noteq> [] then
        (case enrichmentData of
           None \<Rightarrow> []
         | Some table \<Rightarrow>
             (case table (Slug e) of
                None \<Rightarrow> []
              | Some ed \<Rightarrow> getEnrichmentOverrides ed (EnrichmentOverrideField tc)))
      else [])"

definition extractValues :: "Entity \<Rightarrow> TaxonomyConfig \<Rightarrow> enrichment \<Rightarrow> string list" where
  "extractValues e tc enrichmentData =
     (if lookupOverrides e tc enrichmentData \<noteq> [] then lookupOverrides e tc enrichmentData
      else
        (case Fields e (tcField tc) of
           None \<Rightarrow> []
         | Some v \<Rightarrow>
             (if MultiValue tc then toStringSlice v
              else (case v of
                      VString s \<Rightarrow> (if s \<noteq> [] then [s] else [])
                    | _ \<Rightarrow> []))))"

subsection \<open>Building one taxonomy\<close>

text \<open>
  \<open>groups\<close> is the \<open>map[string]*Entry\<close> of \<open>buildOne\<close>. One step of the inner loop:
  an empty slug is skipped, a new slug creates the entry under the value that produced it,
  and the entity is appended to the entry of its slug.
\<close>

definition addValue ::
  "(string \<Rightarrow> string) \<Rightarrow> Entity \<Rightarrow> (string \<Rightarrow> Entry option) \<Rightarrow> string \<Rightarrow> (string \<Rightarrow> Entry option)" where
  "addValue umap e groups v =
     (let slug = ToSlug umap v in
      if slug = [] then groups
      else
        (let entry = (case groups slug of
                        None \<Rightarrow> \<lparr>Name = v, eSlug = slug, Entities = []\<rparr>
                      | Some entry \<Rightarrow> entry)
         in groups(slug \<mapsto> entry\<lparr>Entities := Entities entry @ [e]\<rparr>)))"

definition addEntity ::
  "(string \<Rightarrow> string) \<Rightarrow> TaxonomyConfig \<Rightarrow> enrichment \<Rightarrow> (string \<Rightarrow> Entry option) \<Rightarrow> Entity
     \<Rightarrow> (string \<Rightarrow> Entry option)" where
  "addEntity umap tc enrichmentData groups e =
     (if Invert tc then groups
      else foldl (addValue umap e) groups (extractValues e tc enrichmentData))"

definition groupEntities ::
  "(string \<Rightarrow> string) \<Rightarrow> Entity list \<Rightarrow> TaxonomyConfig \<Rightarrow> enrichment \<Rightarrow> (string \<Rightarrow> Entry option)" where
  "groupEntities umap entities tc enrichmentData =
     foldl (addEntity umap tc enrichmentData) Map.empty entities"

text \<open>
  \<open>for _, entry := range groups\<close> visits the keys of a Go map in an order that the language
  leaves open and that differs between runs. The order of one run is the parameter
  \<open>keys\<close>; \<open>rangeOrder groups keys\<close> says that it lists every key of the map once.
\<close>

definition rangeOrder :: "('k \<Rightarrow> 'v option) \<Rightarrow> 'k list \<Rightarrow> bool" where
  "rangeOrder m keys \<longleftrightarrow> distinct keys \<and> set keys = dom m"

definition collectEntries :: "TaxonomyConfig \<Rightarrow> (string \<Rightarrow> Entry option) \<Rightarrow> string list \<Rightarrow> Entry list" where
  "collectEntries tc groups keys =
     filter (\<lambda>entry. int (length (Entities entry)) \<ge> MinEntities tc) (List.map_filter groups keys)"

text \<open>
  \<open>sort.Slice\<close> with the comparison \<open>entries[i].Slug < entries[j].Slug\<close>. It is not a
  stable sort; the slugs of the entries are pairwise different, so there is only one
  arrangement of them that is sorted by slug, and \<open>sort_key\<close> returns it.
\<close>

definition buildOne ::
  "(string \<Rightarrow> string) \<Rightarrow> string list \<Rightarrow> Entity list \<Rightarrow> TaxonomyConfig \<Rightarrow> enrichment \<Rightarrow> Taxonomy" where
  "buildOne umap keys entities tc enrichmentData =
     (let groups = groupEntities umap entities tc enrichmentData;
          entries = collectEntries tc groups keys
      in \<lparr>tName = tcName tc, tLabel = tcLabel tc, tLabelSingular = tcLabelSingular tc,
          Config = tc, Entries = sort_key eSlug entries\<rparr>)"


text \<open>The invariant of \<open>groups\<close>: every entry is stored under its own slug.\<close>

definition keyed :: "(string \<Rightarrow> Entry option) \<Rightarrow> bool" where
  "keyed m \<longleftrightarrow> (\<forall>k g. m k = Some g \<longrightarrow> eSlug g = k)"

section \<open>Pagination (taxonomy/taxonomy.go)\<close>

text \<open>
  Go's \<open>int\<close> is a 64-bit two's-complement integer on the platforms the generator is
  built for. Values are integers in the range \<open>-2^63 .. 2^63 - 1\<close>; every arithmetic
  operation wraps its result into the range; \<open>/\<close> truncates towards zero and panics on a
  zero divisor.
\<close>

definition wrap64 :: "int \<Rightarrow> int" where
  "wrap64 x = (x + 2 ^ 63) mod 2 ^ 64 - 2 ^ 63"

definition add64 :: "int \<Rightarrow> int \<Rightarrow> int" where
  "add64 a b = wrap64 (a + b)"

definition sub64 :: "int \<Rightarrow> int \<Rightarrow> int" where
  "sub64 a b = wrap64 (a - b)"

definition mul64 :: "int \<Rightarrow> int \<Rightarrow> int" where
  "mul64 a b = wrap64 (a * b)"

definition quo64 :: "int \<Rightarrow> int \<Rightarrow> int" where
  "quo64 a b = wrap64 (sgn a * sgn b * (\<bar>a\<bar> div \<bar>b\<bar>))"

text \<open>The verb \<open>%d\<close> of \<open>fmt.Sprintf\<close>: the decimal numeral of an integer.\<close>

fun natDigits :: "nat \<Rightarrow> string" where
  "natDigits n =
     (if n < 10 then [char_of (48 + n)]
      else natDigits (n div 10) @ [char_of (48 + n mod 10)])"

declare natDigits.simps [simp del]

definition itoa :: "int \<Rightarrow> string" where
  "itoa i = (if i < 0 then CHR ''-'' # natDigits (nat (- i)) else natDigits (nat i))"

record PageURL =
  Number :: int
  URL :: string

record PaginationInfo =
  CurrentPage :: int
  TotalPages :: int
  TotalItems :: int
  StartIndex :: int
  EndIndex :: int
  PrevURL :: string
  NextURL :: string
  PageURLs :: "PageURL list"

definition HubPageURL :: "string \<Rightarrow> string \<Rightarrow> int \<Rightarrow> string" where
  "HubPageURL taxonomyName entrySlug page =
     (if page = 1 then ''/'' @ taxonomyName @ ''/'' @ entrySlug @ ''.html''
      else ''/'' @ taxonomyName @ ''/'' @ entrySlug @ ''-page-'' @ itoa page @ ''.html'')"

text \<open>
  \<open>(total + perPage - 1) / perPage\<close>, raised to 1 when it is 0; the expression of
  \<open>ComputePagination\<close>, which \<open>renderTaxonomyPages\<close> and \<open>renderAllEntitiesPages\<close> repeat.
  The divisor is not zero where this is used.
\<close>

definition pageCount :: "int \<Rightarrow> int \<Rightarrow> int" where
  "pageCount totalCount perPage =
     (let totalPages = quo64 (sub64 (add64 totalCount perPage) 1) perPage
      in if totalPages = 0 then 1 else totalPages)"

text \<open>
  \<open>ComputePagination\<close>. \<open>None\<close> is the run-time panic of the division when
  \<open>perPage\<close> is 0. The loop \<open>for p := 1; p <= totalPages; p++\<close> builds one link for each
  page number from 1 to \<open>totalPages\<close>.
\<close>

definition ComputePagination :: "Entry \<Rightarrow> int \<Rightarrow> int \<Rightarrow> string \<Rightarrow> PaginationInfo option" where
  "ComputePagination entry page perPage taxonomyName =
     (if perPage = 0 then None
      else
        (let totalCount = int (length (Entities entry));
             totalPages = pageCount totalCount perPage;
             start = mul64 (sub64 page 1) perPage;
             endIdx = add64 start perPage;
             endIdx = (if endIdx > totalCount then totalCount else endIdx)
         in Some \<lparr>CurrentPage = page, TotalPages = totalPages, TotalItems = totalCount,
                  StartIndex = start, EndIndex = endIdx,
                  PrevURL = (if page > 1
                             then HubPageURL taxonomyName (eSlug entry) (sub64 page 1) else []),
                  NextURL = (if page < totalPages
                             then HubPageURL taxonomyName (eSlug entry) (add64 page 1) else []),
                  PageURLs = map (\<lambda>p. \<lparr>Number = p, URL = HubPageURL taxonomyName (eSlug entry) p\<rparr>)
                               [1..totalPages]\<rparr>))"

text \<open>The size of the window of one page, \<open>EndIndex - StartIndex\<close>.\<close>

definition windowSize :: "Entry \<Rightarrow> int \<Rightarrow> int \<Rightarrow> string \<Rightarrow> int" where
  "windowSize entry page perPage taxonomyName =
     (case ComputePagination entry page perPage taxonomyName of
        None \<Rightarrow> 0
      | Some info \<Rightarrow> EndIndex info - StartIndex info)"

section \<open>Letter groups (taxonomy/taxonomy.go)\<close>











section \<open>Sitemap files (output/sitemap.go)\<close>

record SitemapEntry =
  Loc :: string
  Lastmod :: string
  Priority :: string
  ChangeFreq :: string

text \<open>The entry of a sitemap index, \<open>sitemapEntry\<close> in the source.\<close>

record sitemapEntry =
  loc :: string
  lastmod :: string

text \<open>
  The content of a file is the XML text that \<open>xml.MarshalIndent\<close> of the Go library writes
  for a \<open>urlSet\<close> or for a \<open>sitemapIndex\<close>. The marshaller is not part of the repository;
  the content is modelled by the document it is given: the list of URL entries
  (\<open>generateSitemap\<close> copies the four fields of every entry, in order), or the list of index
  entries (\<open>generateSitemapIndex\<close>).
\<close>

datatype xmlDocument =
    UrlSet "SitemapEntry list"
  | SitemapIndex "sitemapEntry list"

record SitemapFile =
  Filename :: string
  Content :: xmlDocument

definition generateSitemap :: "SitemapEntry list \<Rightarrow> xmlDocument" where
  "generateSitemap entries = UrlSet entries"

definition generateSitemapIndex :: "sitemapEntry list \<Rightarrow> xmlDocument" where
  "generateSitemapIndex entries = SitemapIndex entries"

text \<open>
  The loop of \<open>chunkEntries\<close>, \<open>for i := 0; i < len(entries); i += size\<close>, for a positive
  \<open>size\<close>: the chunk at \<open>i\<close> is \<open>entries[i:min(i+size, len(entries))]\<close>. A slice holds
  fewer than \<open>2^63\<close> entries and \<open>size\<close> is less than the length where the function is
  called, so that \<open>i + size\<close> does not wrap.
\<close>

function chunkLoop :: "'a list \<Rightarrow> nat \<Rightarrow> nat \<Rightarrow> 'a list list" where
  "chunkLoop entries chunkSize i =
     (if 0 < chunkSize \<and> i < length entries
      then take chunkSize (drop i entries) # chunkLoop entries chunkSize (i + chunkSize)
      else [])"
  by pat_completeness auto
termination
  by (relation "measure (\<lambda>(entries, chunkSize, i). length entries - i)") auto

declare chunkLoop.simps [simp del]

text \<open>
  \<open>chunkEntries\<close>. With a size of 0 and an entry to chunk the loop of the source never
  advances, and with a negative size its first slice expression panics: both are \<open>None\<close>.
\<close>

definition chunkEntries :: "'a list \<Rightarrow> int \<Rightarrow> 'a list list option" where
  "chunkEntries entries chunkSize =
     (if entries = [] then Some []
      else if chunkSize \<le> 0 then None
      else Some (chunkLoop entries (nat chunkSize) 0))"

text \<open>
  The body of the loop over the chunks in \<open>GenerateSitemapFiles\<close>: the file of chunk \<open>i\<close>
  (counted from 0) and its entry in the index.
\<close>

definition chunkFilename :: "nat \<Rightarrow> string" where
  "chunkFilename i = ''sitemap-'' @ itoa (int i + 1) @ ''.xml''"

definition chunkFile :: "nat \<Rightarrow> SitemapEntry list \<Rightarrow> SitemapFile" where
  "chunkFile i chunk = \<lparr>Filename = chunkFilename i, Content = generateSitemap chunk\<rparr>"

definition indexEntry :: "string \<Rightarrow> string \<Rightarrow> nat \<Rightarrow> sitemapEntry" where
  "indexEntry baseURL lastmodDate i =
     \<lparr>loc = baseURL @ ''/'' @ chunkFilename i, lastmod = lastmodDate\<rparr>"

definition GenerateSitemapFiles :: "SitemapEntry list \<Rightarrow> string \<Rightarrow> int \<Rightarrow> SitemapFile list option" where
  "GenerateSitemapFiles entries baseURL maxPerFile =
     (let maxPerFile = (if maxPerFile \<le> 0 then 50000 else maxPerFile) in
      if int (length entries) \<le> maxPerFile
      then Some [\<lparr>Filename = ''sitemap.xml'', Content = generateSitemap entries\<rparr>]
      else
        (let lastmodDate = (case entries of [] \<Rightarrow> [] | first # _ \<Rightarrow> Lastmod first) in
         case chunkEntries entries maxPerFile of
           None \<Rightarrow> None
         | Some chunks \<Rightarrow>
             Some (\<lparr>Filename = ''sitemap.xml'',
                     Content = generateSitemapIndex
                       (map (indexEntry baseURL lastmodDate) [0 ..< length chunks])\<rparr>
                   # map (\<lambda>(i, chunk). chunkFile i chunk) (enumerate 0 chunks))))"

text \<open>The number of URL entries of a file; an index file lists sitemaps, not URLs.\<close>

definition urlCount :: "SitemapFile \<Rightarrow> nat" where
  "urlCount file = (case Content file of UrlSet urls \<Rightarrow> length urls | SitemapIndex _ \<Rightarrow> 0)"

definition isIndexFile :: "SitemapFile \<Rightarrow> bool" where
  "isIndexFile file = (case Content file of UrlSet _ \<Rightarrow> False | SitemapIndex _ \<Rightarrow> True)"

section \<open>Loading entities (loader/markdown.go)\<close>

text \<open>
  \<open>filepath.Base\<close>, \<open>filepath.Ext\<close> and \<open>strings.TrimSuffix\<close> of the Go library, for
  slash-separated paths: the last element of a path once trailing slashes are dropped
  (\<open>.\<close> for the empty path, \<open>/\<close> for slashes only); the suffix of the last element from
  its last dot on; and a string without the given suffix when it ends in it.
\<close>

definition Base :: "string \<Rightarrow> string" where
  "Base path =
     (if path = [] then ''.''
      else
        (let stripped = rev (dropWhile (\<lambda>c. c = CHR ''/'') (rev path));
             element = rev (takeWhile (\<lambda>c. c \<noteq> CHR ''/'') (rev stripped))
         in if element = [] then ''/'' else element))"

definition Ext :: "string \<Rightarrow> string" where
  "Ext path =
     (let element = takeWhile (\<lambda>c. c \<noteq> CHR ''/'') (rev path)
      in if CHR ''.'' \<in> set element
         then CHR ''.'' # rev (takeWhile (\<lambda>c. c \<noteq> CHR ''.'') element)
         else [])"

definition HasSuffix :: "string \<Rightarrow> string \<Rightarrow> bool" where
  "HasSuffix s suff \<longleftrightarrow>
     length suff \<le> length s \<and> drop (length s - length suff) s = suff"

definition TrimSuffix :: "string \<Rightarrow> string \<Rightarrow> string" where
  "TrimSuffix s suff = (if HasSuffix s suff then take (length s - length suff) s else s)"

text \<open>
  \<open>deriveSlug\<close>. \<open>source\<close> is \<open>Config.Data.EntitySlug.Source\<close>, \<open>"filename"\<close> or
  \<open>"field:<name>"\<close>. With the prefix \<open>field:\<close> and a string under the named field the slug
  is \<open>ToSlug\<close> of that string; in every other case it is the file name without its
  extension, as it stands.
\<close>

definition deriveSlug ::
  "(string \<Rightarrow> string) \<Rightarrow> string \<Rightarrow> string \<Rightarrow> (string \<Rightarrow> val option) \<Rightarrow> string" where
  "deriveSlug umap source path fieldMap =
     (case (if take 6 source = ''field:''
            then (case fieldMap (drop 6 source) of
                    Some (VString s) \<Rightarrow> Some (ToSlug umap s)
                  | _ \<Rightarrow> None)
            else None) of
        Some slug \<Rightarrow> slug
      | None \<Rightarrow> (let base = Base path in TrimSuffix base (Ext base)))"

text \<open>
  Reading a file, splitting off its front matter, decoding the YAML and parsing the body
  sections are the work of the operating system and of the YAML library. They are the
  parameter \<open>readRecord\<close>: for a path, an error message or the decoded fields, the parsed
  sections and the body.
\<close>

record Parsed =
  pFields :: "string \<Rightarrow> val option"
  pSections :: "string \<Rightarrow> val option"
  pBody :: string

definition parseFile ::
  "(string \<Rightarrow> string) \<Rightarrow> (string \<Rightarrow> string + Parsed) \<Rightarrow> string \<Rightarrow> string \<Rightarrow> string + Entity" where
  "parseFile umap readRecord source path =
     (case readRecord path of
        Inl err \<Rightarrow> Inl err
      | Inr parsed \<Rightarrow>
          Inr \<lparr>Slug = deriveSlug umap source path (pFields parsed), SourceFile = path,
               Fields = pFields parsed, Sections = pSections parsed, Body = pBody parsed\<rparr>)"

text \<open>
  A directory entry as \<open>os.ReadDir\<close> returns it, and the loop of \<open>Load\<close> over the entries:
  directories and names without the suffix \<open>.md\<close> are passed over, a file that does not
  parse is skipped with a warning, every other file adds its entity to the list.
  \<open>joinPath\<close> is \<open>filepath.Join\<close>.
\<close>

record DirEntry =
  deName :: string
  deIsDir :: bool

fun loadEntries ::
  "(string \<Rightarrow> string) \<Rightarrow> (string \<Rightarrow> string + Parsed) \<Rightarrow> (string \<Rightarrow> string \<Rightarrow> string)
     \<Rightarrow> string \<Rightarrow> string \<Rightarrow> DirEntry list \<Rightarrow> Entity list" where
  "loadEntries umap readRecord joinPath source dataDir [] = []"
| "loadEntries umap readRecord joinPath source dataDir (entry # entries) =
     (if deIsDir entry \<or> \<not> HasSuffix (deName entry) ''.md''
      then loadEntries umap readRecord joinPath source dataDir entries
      else
        (case parseFile umap readRecord source (joinPath dataDir (deName entry)) of
           Inl err \<Rightarrow> loadEntries umap readRecord joinPath source dataDir entries
         | Inr e \<Rightarrow> e # loadEntries umap readRecord joinPath source dataDir entries))"

definition Load ::
  "(string \<Rightarrow> string) \<Rightarrow> (string \<Rightarrow> string + DirEntry list) \<Rightarrow> (string \<Rightarrow> string + Parsed)
     \<Rightarrow> (string \<Rightarrow> string \<Rightarrow> string) \<Rightarrow> string \<Rightarrow> string \<Rightarrow> string + Entity list" where
  "Load umap readDir readRecord joinPath source dataDir =
     (case readDir dataDir of
        Inl err \<Rightarrow> Inl (''reading data dir '' @ dataDir @ '': '' @ err)
      | Inr entries \<Rightarrow> Inr (loadEntries umap readRecord joinPath source dataDir entries))"

text \<open>
  The slug lookup of \<open>Builder.Build\<close>:
  \<open>for _, e := range entities { slugMap[e.Slug] = e }\<close>.
\<close>

definition buildSlugMap :: "Entity list \<Rightarrow> (string \<Rightarrow> Entity option)" where
  "buildSlugMap entities = foldl (\<lambda>slugMap e. slugMap(Slug e \<mapsto> e)) Map.empty entities"

text \<open>The records that \<open>Load\<close> keeps: regular \<open>.md\<close> files that parse.\<close>

definition loadable ::
  "(string \<Rightarrow> string + Parsed) \<Rightarrow> (string \<Rightarrow> string \<Rightarrow> string) \<Rightarrow> string \<Rightarrow> DirEntry \<Rightarrow> bool" where
  "loadable readRecord joinPath dataDir entry \<longleftrightarrow>
     \<not> deIsDir entry \<and> HasSuffix (deName entry) ''.md''
     \<and> (case readRecord (joinPath dataDir (deName entry)) of Inl err \<Rightarrow> False | Inr parsed \<Rightarrow> True)"

section \<open>The build pass (build package, \<open>Builder.Build\<close>)\<close>

text \<open>
  What a call returns: an error value of Go, with its message, or a run-time panic.
\<close>

datatype failure = Error string | Panic string

text \<open>The fields of \<open>config.Config\<close> that the build pass reads.\<close>

record Config =
  siteBaseURL :: string
  siteCNAME :: string
  pathsData :: string
  pathsOutput :: string
  entitySlugSource :: string
  cfgTaxonomies :: "TaxonomyConfig list"
  entitiesPerPage :: int
  enrichmentCacheDir :: string
  maxURLsPerFile :: int
  priorities :: "string \<Rightarrow> string option"
  changeFreqs :: "string \<Rightarrow> string option"
  rssEnabled :: bool
  rssMainFeed :: string
  rssCategoryFeeds :: bool
  rssCategoryTaxonomy :: string
  llmsTxtEnabled :: bool
  extractCSS :: string
  extractJS :: string
  staticPages :: "(string \<times> string) list"

text \<open>
  The surroundings of one run: the file system, the template engine, the clock, the Go
  library's Unicode tables and path functions, the orders in which the run ranges over
  its Go maps, and the order in which the scheduler lets the workers of the entity stage
  complete. An operation that can fail answers with \<open>Some\<close> error message or with
  \<open>None\<close>; the text that a template renders does not influence the pass and is left out.
  \<open>staticPages\<close> of the configuration lists \<open>Templates.StaticPages\<close> in the order in which
  the run ranges over that map.
\<close>

record World =
  toLowerTable :: "string \<Rightarrow> string"
  toUpperTable :: "nat \<Rightarrow> nat"
  isLetterTable :: "nat \<Rightarrow> bool"
  pathJoin :: "string \<Rightarrow> string \<Rightarrow> string"
  pathDir :: "string \<Rightarrow> string"
  today :: string
  osReadDir :: "string \<Rightarrow> string + DirEntry list"
  osReadRecord :: "string \<Rightarrow> string + Parsed"
  readAllCaches :: "string \<Rightarrow> string + (string \<Rightarrow> (string \<Rightarrow> val option) option)"
  groupKeys :: "TaxonomyConfig \<Rightarrow> string list"
  categoryKeys :: "string list \<Rightarrow> string list"
  completionOrder :: "Entity list \<Rightarrow> Entity list"
  osMkdirAll :: "string \<Rightarrow> string option"
  osWriteFile :: "string \<Rightarrow> string option"
  newEngine :: "string option"
  renderCSS :: "string + string"
  renderJS :: "string + string"
  renderEntity :: "Entity \<Rightarrow> string option"
  renderHub :: "string \<Rightarrow> string \<Rightarrow> int \<Rightarrow> string option"
  renderTaxonomyIndex :: "string \<Rightarrow> string option"
  renderLetter :: "string \<Rightarrow> string \<Rightarrow> string option"
  renderAllEntities :: "int \<Rightarrow> string option"
  renderHomepageTemplate :: "string option"
  renderStatic :: "string \<Rightarrow> string option"

text \<open>
  The variables of \<open>Build\<close> that the rendering stages update: the accumulated sitemap
  entries, the count of entity pages that failed, and the warnings that the entity stage
  writes to standard error.
\<close>

record BuildState =
  sitemapEntries :: "SitemapEntry list"
  entityErrors :: int
  entityWarnings :: "string list"


definition NewSitemapEntry :: "string \<Rightarrow> string \<Rightarrow> string \<Rightarrow> string \<Rightarrow> string \<Rightarrow> SitemapEntry" where
  "NewSitemapEntry baseURL path lastmodDate priority changefreq =
     (let trimmed = rev (dropWhile (\<lambda>c. c = CHR ''/'') (rev (baseURL @ path)))
      in \<lparr>Loc = (if path = ''/'' then baseURL @ ''/'' else trimmed), Lastmod = lastmodDate,
          Priority = priority, ChangeFreq = changefreq\<rparr>)"

definition addSitemapEntry :: "World \<Rightarrow> Config \<Rightarrow> string \<Rightarrow> string \<Rightarrow> string \<Rightarrow> BuildState \<Rightarrow> BuildState" where
  "addSitemapEntry w cfg path priority changefreq st =
     st\<lparr>sitemapEntries := sitemapEntries st
          @ [NewSitemapEntry (siteBaseURL cfg) path (today w) priority changefreq]\<rparr>"


subsection \<open>Entity pages\<close>





subsection \<open>Taxonomy pages\<close>









text \<open>
  Stage 12 of \<open>Build\<close>: an error of \<open>renderTaxonomyPages\<close> is returned at once, under the
  name of the taxonomy.
\<close>

definition wrapFailure :: "string \<Rightarrow> failure \<Rightarrow> failure" where
  "wrapFailure context f = (case f of Error err \<Rightarrow> Error (context @ '': '' @ err) | Panic p \<Rightarrow> Panic p)"


subsection \<open>The pages of all entities and the homepage\<close>






subsection \<open>Before and after the pages\<close>

















section \<open>Concrete inputs\<close>

text \<open>Small corpora and configurations on which the theorems below are instantiated.\<close>

definition exSoup :: Entity where
  "exSoup = \<lparr>Slug = ''adzuki-soup'', SourceFile = ''data/adzuki-soup.md'',
     Fields = [''category'' \<mapsto> VString ''Soup''], Sections = Map.empty, Body = []\<rparr>"

definition exCake :: Entity where
  "exCake = \<lparr>Slug = ''butter-cake'', SourceFile = ''data/butter-cake.md'',
     Fields = [''category'' \<mapsto> VString ''Dessert''], Sections = Map.empty, Body = []\<rparr>"

definition exBroth :: Entity where
  "exBroth = \<lparr>Slug = ''chicken-broth'', SourceFile = ''data/chicken-broth.md'',
     Fields = [''category'' \<mapsto> VString ''soup''], Sections = Map.empty, Body = []\<rparr>"

definition exCategory :: TaxonomyConfig where
  "exCategory = \<lparr>tcName = ''category'', tcLabel = ''Categories'', tcLabelSingular = ''Category'',
     tcField = ''category'', MultiValue = False, MinEntities = 1, LetterPageThreshold = 50,
     Invert = False, EnrichmentOverrideField = []\<rparr>"

definition exSoupEntry :: Entry where
  "exSoupEntry = \<lparr>Name = ''Soup'', eSlug = ''soup'', Entities = [exSoup, exBroth]\<rparr>"

definition exDessertEntry :: Entry where
  "exDessertEntry = \<lparr>Name = ''Dessert'', eSlug = ''dessert'', Entities = [exCake]\<rparr>"

text \<open>
  A record whose field \<open>ingredients\<close> is a list as the YAML decoder returns it, with a
  number among its items; the row of the record in the enrichment table; and two taxonomy
  definitions, one with a path as its override key and one with a plain key, over a field
  that the record does not have.
\<close>

definition exIngredient :: TaxonomyConfig where
  "exIngredient = \<lparr>tcName = ''ingredient'', tcLabel = ''Ingredients'', tcLabelSingular = ''Ingredient'',
     tcField = ''ingredients'', MultiValue = True, MinEntities = 1, LetterPageThreshold = 50,
     Invert = False, EnrichmentOverrideField = ''ingredients[].normalizedName''\<rparr>"

definition exCuisine :: TaxonomyConfig where
  "exCuisine = \<lparr>tcName = ''cuisine'', tcLabel = ''Cuisines'', tcLabelSingular = ''Cuisine'',
     tcField = ''cuisine'', MultiValue = False, MinEntities = 1, LetterPageThreshold = 50,
     Invert = False, EnrichmentOverrideField = ''cuisine''\<rparr>"

definition exBread :: Entity where
  "exBread = \<lparr>Slug = ''bread'', SourceFile = ''data/bread.md'',
     Fields = [''ingredients'' \<mapsto> VList [VString ''2 cups Flour'', VOther, VString ''Water'']],
     Sections = Map.empty, Body = []\<rparr>"

definition exBreadData :: "string \<Rightarrow> val option" where
  "exBreadData =
     [''ingredients'' \<mapsto>
        VList [VMap [''normalizedName'' \<mapsto> VString ''flour''],
               VString ''salt'',
               VMap [''normalizedName'' \<mapsto> VString []],
               VMap [''name'' \<mapsto> VString ''Water''],
               VMap [''normalizedName'' \<mapsto> VString ''water'']],
      ''cuisine'' \<mapsto> VList [VString ''French'', VOther, VString ''Rustic'']]"

definition exTable :: "string \<Rightarrow> (string \<Rightarrow> val option) option" where
  "exTable = [''bread'' \<mapsto> exBreadData]"



definition exSitemap :: "SitemapEntry list" where
  "exSitemap =
     [\<lparr>Loc = ''https://example.org/a.html'', Lastmod = ''2026-01-02'', Priority = ''0.8'', ChangeFreq = ''weekly''\<rparr>,
      \<lparr>Loc = ''https://example.org/b.html'', Lastmod = ''2026-01-03'', Priority = ''0.8'', ChangeFreq = ''weekly''\<rparr>,
      \<lparr>Loc = ''https://example.org/c.html'', Lastmod = ''2026-01-04'', Priority = ''0.8'', ChangeFreq = ''weekly''\<rparr>,
      \<lparr>Loc = ''https://example.org/d.html'', Lastmod = ''2026-01-05'', Priority = ''0.8'', ChangeFreq = ''weekly''\<rparr>,
      \<lparr>Loc = ''https://example.org/'', Lastmod = ''2026-01-06'', Priority = ''1.0'', ChangeFreq = ''daily''\<rparr>]"

text \<open>
  A data directory of two records whose \<open>slug\<close> fields both read \<open>Apple Pie\<close>, and the
  plain concatenation that \<open>filepath.Join\<close> performs on clean arguments.
\<close>

definition exDir :: "string \<Rightarrow> string + DirEntry list" where
  "exDir dataDir = Inr [\<lparr>deName = ''a.md'', deIsDir = False\<rparr>, \<lparr>deName = ''b.md'', deIsDir = False\<rparr>]"

definition exRecord :: "string \<Rightarrow> string + Parsed" where
  "exRecord path =
     Inr \<lparr>pFields = [''slug'' \<mapsto> VString ''Apple Pie''], pSections = Map.empty, pBody = path\<rparr>"

definition exJoin :: "string \<Rightarrow> string \<Rightarrow> string" where
  "exJoin dir name = dir @ ''/'' @ name"









section \<open>Properties of the slug transform\<close>

lemma hyphen_not_alnum: "\<not> isAlnum CHR ''-''"
  by (simp add: isAlnum_def less_eq_char_def)

lemma alnum_ascii_lower: "isAlnum c \<Longrightarrow> isASCII c \<and> \<not> isUpperAZ c"
  by (auto simp: isAlnum_def isASCII_def isUpperAZ_def less_eq_char_def)

lemma slugChar_ascii_lower: "slugChar c \<Longrightarrow> isASCII c \<and> lowerByte c = c"
  unfolding slugChar_def lowerByte_def isAlnum_def isASCII_def isUpperAZ_def less_eq_char_def
  by auto

lemma replaceNonAlnum_chars: "list_all slugChar (replaceNonAlnum s)"
  by (induction s rule: replaceNonAlnum.induct) (auto simp: slugChar_def)

lemma replaceNonAlnum_head:
  "replaceNonAlnum s = c # r \<Longrightarrow> s \<noteq> [] \<and> (isAlnum (hd s) \<longrightarrow> c = hd s)"
  by (cases s) (auto split: if_splits)

lemma dropWhile_head: "dropWhile P xs = y # ys \<Longrightarrow> \<not> P y"
  by (metis hd_dropWhile list.sel(1) list.distinct(1))

lemma replaceNonAlnum_noAdj: "noAdjacentHyphens (replaceNonAlnum s)"
proof (induction s rule: replaceNonAlnum.induct)
  case 1
  show ?case by simp
next
  case (2 c cs)
  show ?case
  proof (cases "isAlnum c")
    case True
    with 2 hyphen_not_alnum show ?thesis
      by (cases "replaceNonAlnum cs") auto
  next
    case False
    let ?d = "dropWhile (\<lambda>d. \<not> isAlnum d) cs"
    have ih: "noAdjacentHyphens (replaceNonAlnum ?d)" using 2 False by simp
    show ?thesis
    proof (cases "replaceNonAlnum ?d")
      case Nil
      with False show ?thesis by simp
    next
      case (Cons x xs)
      then obtain y ys where d: "?d = y # ys" by (cases ?d) auto
      then have "isAlnum y" using dropWhile_head[of "\<lambda>d. \<not> isAlnum d" cs y ys] by simp
      with Cons d have "x = y" by simp
      with \<open>isAlnum y\<close> hyphen_not_alnum have "x \<noteq> CHR ''-''" by auto
      with ih Cons False show ?thesis by simp
    qed
  qed
qed

lemma noAdj_tl: "noAdjacentHyphens (x # xs) \<Longrightarrow> noAdjacentHyphens xs"
  by (cases xs) auto

lemma noAdj_dropWhile: "noAdjacentHyphens xs \<Longrightarrow> noAdjacentHyphens (dropWhile P xs)"
  by (induction xs) (auto dest: noAdj_tl)

lemma noAdj_append_left: "noAdjacentHyphens (xs @ ys) \<Longrightarrow> noAdjacentHyphens xs"
  by (induction xs rule: noAdjacentHyphens.induct) auto

lemma rev_dropWhile_rev_prefix: "\<exists>zs. xs = rev (dropWhile P (rev xs)) @ zs"
  by (metis rev_append rev_rev_ident takeWhile_dropWhile_id)

lemma noAdj_trim: "noAdjacentHyphens xs \<Longrightarrow> noAdjacentHyphens (trimHyphens xs)"
  unfolding trimHyphens_def
  by (metis noAdj_append_left noAdj_dropWhile rev_dropWhile_rev_prefix)

lemma chars_trim: "list_all P xs \<Longrightarrow> list_all P (trimHyphens xs)"
  unfolding trimHyphens_def list_all_iff
  by (metis set_dropWhileD set_rev)

lemma trim_hd: "trimHyphens xs \<noteq> [] \<Longrightarrow> hd (trimHyphens xs) \<noteq> CHR ''-''"
proof -
  let ?P = "\<lambda>c. c = CHR ''-''"
  let ?ys = "dropWhile ?P xs"
  assume ne: "trimHyphens xs \<noteq> []"
  obtain zs where split: "?ys = trimHyphens xs @ zs"
    unfolding trimHyphens_def using rev_dropWhile_rev_prefix[of ?ys ?P] by blast
  with ne have "?ys \<noteq> []" and "hd (trimHyphens xs) = hd ?ys" by auto
  then show ?thesis using hd_dropWhile[of ?P xs] by simp
qed

lemma trim_last: "trimHyphens xs \<noteq> [] \<Longrightarrow> last (trimHyphens xs) \<noteq> CHR ''-''"
  unfolding trimHyphens_def
  by (metis (mono_tags, lifting) hd_dropWhile last_rev rev_is_Nil_conv)


lemma replaceNonAlnum_id:
  "list_all slugChar r \<Longrightarrow> noAdjacentHyphens r \<Longrightarrow> replaceNonAlnum r = r"
proof (induction r rule: replaceNonAlnum.induct)
  case 1
  show ?case by simp
next
  case (2 c cs)
  have tl: "list_all slugChar cs" "noAdjacentHyphens cs"
    using "2.prems" noAdj_tl by auto
  show ?case
  proof (cases "isAlnum c")
    case True
    with 2 tl show ?thesis by simp
  next
    case False
    with "2.prems" have c: "c = CHR ''-''" by (simp add: slugChar_def)
    have keep: "dropWhile (\<lambda>d. \<not> isAlnum d) cs = cs"
    proof (cases cs)
      case Nil
      then show ?thesis by simp
    next
      case (Cons d ds)
      with "2.prems" c have "d \<noteq> CHR ''-''" and "slugChar d" by auto
      then have "isAlnum d" by (simp add: slugChar_def)
      with Cons show ?thesis by simp
    qed
    with 2 False tl c show ?thesis by simp
  qed
qed

lemma trimHyphens_id:
  "r \<noteq> [] \<longrightarrow> hd r \<noteq> CHR ''-'' \<and> last r \<noteq> CHR ''-'' \<Longrightarrow> trimHyphens r = r"
proof (cases r)
  case Nil
  then show ?thesis by (simp add: trimHyphens_def)
next
  case (Cons a as)
  assume "r \<noteq> [] \<longrightarrow> hd r \<noteq> CHR ''-'' \<and> last r \<noteq> CHR ''-''"
  with Cons have h: "a \<noteq> CHR ''-''" and l: "last r \<noteq> CHR ''-''" by auto
  from h Cons have "dropWhile (\<lambda>c. c = CHR ''-'') r = r" by simp
  moreover have "dropWhile (\<lambda>c. c = CHR ''-'') (rev r) = rev r"
  proof (cases "rev r")
    case Nil
    then show ?thesis by simp
  next
    case (Cons b bs)
    then have "last r = b" using last_rev[of "rev r"] by simp
    with l Cons show ?thesis by simp
  qed
  ultimately show ?thesis by (simp add: trimHyphens_def)
qed

lemma ToLower_id: "list_all slugChar r \<Longrightarrow> ToLower umap r = r"
proof -
  assume a: "list_all slugChar r"
  then have "list_all isASCII r" and "map lowerByte r = r"
    by (auto simp: list_all_iff slugChar_ascii_lower map_idI)
  then show ?thesis by (simp add: ToLower_def)
qed

text \<open>
  Claim C10. \<open>ToSlug\<close> is idempotent and its image is canonical: for every string \<open>s\<close>,
  \<open>ToSlug (ToSlug s) = ToSlug s\<close>; the result holds only lowercase ASCII letters, digits
  and hyphens; no two hyphens are adjacent; and a non-empty result neither starts nor ends
  with a hyphen. This holds whatever the Unicode case tables do on non-ASCII input.
\<close>

theorem ToSlug_idempotent_canonical:
  "ToSlug umap (ToSlug umap s) = ToSlug umap s
   \<and> list_all slugChar (ToSlug umap s)
   \<and> noAdjacentHyphens (ToSlug umap s)
   \<and> (ToSlug umap s \<noteq> [] \<longrightarrow>
        hd (ToSlug umap s) \<noteq> CHR ''-'' \<and> last (ToSlug umap s) \<noteq> CHR ''-'')"
proof -
  let ?r = "ToSlug umap s"
  have chars: "list_all slugChar ?r"
    unfolding ToSlug_def by (rule chars_trim) (rule replaceNonAlnum_chars)
  have adj: "noAdjacentHyphens ?r"
    unfolding ToSlug_def by (rule noAdj_trim) (rule replaceNonAlnum_noAdj)
  have ends: "?r \<noteq> [] \<longrightarrow> hd ?r \<noteq> CHR ''-'' \<and> last ?r \<noteq> CHR ''-''"
    unfolding ToSlug_def using trim_hd trim_last by blast
  have "ToSlug umap ?r = trimHyphens (replaceNonAlnum ?r)"
    using ToLower_id[OF chars] by (simp add: ToSlug_def)
  also have "\<dots> = trimHyphens ?r" using replaceNonAlnum_id[OF chars adj] by simp
  also have "\<dots> = ?r" using trimHyphens_id[OF ends] .
  finally show ?thesis using chars adj ends by simp
qed

theorem ToSlug_idempotent_canonical_witness:
  "ToSlug (\<lambda>s. s) ''Hello,  World!'' = ''hello-world''
   \<and> ToSlug (\<lambda>s. s) ''hello-world'' = ''hello-world''
   \<and> list_all slugChar ''hello-world''
   \<and> noAdjacentHyphens ''hello-world''
   \<and> hd ''hello-world'' \<noteq> CHR ''-'' \<and> last ''hello-world'' \<noteq> CHR ''-''"
proof -
  have v: "ToSlug (\<lambda>s. s) ''Hello,  World!'' = ''hello-world''"
    by code_simp
  show ?thesis
    using ToSlug_idempotent_canonical [of "\<lambda>s. s" "''Hello,  World!''"]
    unfolding v by simp
qed

section \<open>Properties of the taxonomy builder\<close>

lemma Split_from_nonempty: "Split_from sep cur s \<noteq> []"
  by (induction sep cur s rule: Split_from.induct) auto

lemma prefix_take: "prefix sep s \<Longrightarrow> take (length sep) s = sep"
  by (auto simp: prefix_def)

lemma take_prefix: "take (length sep) s = sep \<Longrightarrow> prefix sep s"
  by (metis take_is_prefix)

lemma Split_from_none:
  "sep \<noteq> [] \<Longrightarrow> \<not> sublist sep s \<Longrightarrow> Split_from sep cur s = [cur @ s]"
proof (induction sep cur s rule: Split_from.induct)
  case (1 sep cur)
  then show ?case by simp
next
  case (2 sep cur c cs)
  from 2(4) have np: "\<not> prefix sep (c # cs)" and ns: "\<not> sublist sep cs"
    by (simp_all add: sublist_Cons_right)
  from np have "take (length sep) (c # cs) \<noteq> sep" using take_prefix by metis
  then show ?case using 2(2)[OF _ 2(3) ns] by simp
qed

lemma Split_from_one:
  "sep \<noteq> [] \<Longrightarrow> Split_from sep cur s = [y] \<Longrightarrow> \<not> sublist sep s \<and> y = cur @ s"
proof (induction sep cur s arbitrary: y rule: Split_from.induct)
  case (1 sep cur)
  then show ?case by simp
next
  case (2 sep cur c cs)
  show ?case
  proof (cases "take (length sep) (c # cs) = sep")
    case True
    with 2(3,4) show ?thesis by (simp add: Split_from_nonempty)
  next
    case False
    with 2(4) have "Split_from sep (cur @ [c]) cs = [y]" by simp
    from 2(2)[OF _ 2(3) this] False have "\<not> sublist sep cs \<and> y = (cur @ [c]) @ cs" by simp
    moreover from False have "\<not> prefix sep (c # cs)" using prefix_take by metis
    ultimately show ?thesis by (simp add: sublist_Cons_right)
  qed
qed

lemma Split_from_two:
  "sep \<noteq> [] \<Longrightarrow> Split_from sep cur s = [x, y] \<Longrightarrow>
   \<exists>a. s = a @ sep @ y \<and> \<not> sublist sep a \<and> \<not> sublist sep y \<and> x = cur @ a"
proof (induction sep cur s arbitrary: x rule: Split_from.induct)
  case (1 sep cur)
  then show ?case by simp
next
  case (2 sep cur c cs)
  show ?case
  proof (cases "take (length sep) (c # cs) = sep")
    case True
    with 2(3,4) have x: "x = cur" and r: "Split_from sep [] (drop (length sep) (c # cs)) = [y]"
      by simp_all
    from Split_from_one[OF 2(3) r] have ny: "\<not> sublist sep y" and y: "y = drop (length sep) (c # cs)"
      by simp_all
    have "c # cs = [] @ sep @ y" using True y append_take_drop_id[of "length sep" "c # cs"] by simp
    moreover have "\<not> sublist sep []" using 2(3) by simp
    ultimately show ?thesis using x ny by blast
  next
    case False
    with 2(4) have "Split_from sep (cur @ [c]) cs = [x, y]" by simp
    from 2(2)[OF _ 2(3) this] False obtain a where
      a: "cs = a @ sep @ y" "\<not> sublist sep a" "\<not> sublist sep y" "x = (cur @ [c]) @ a"
      by auto
    have "\<not> prefix sep (c # a)"
    proof
      assume "prefix sep (c # a)"
      then have "prefix sep (c # cs)" unfolding a(1) by (metis Cons_eq_appendI prefix_prefix)
      with False prefix_take show False by metis
    qed
    with a(2) have "\<not> sublist sep (c # a)" by (simp add: sublist_Cons_right)
    with a show ?thesis by (intro exI[of _ "c # a"]) simp
  qed
qed

lemma Split_from_first:
  assumes sep: "sep = ''[].''" and na: "\<not> sublist sep a"
  shows "Split_from sep cur (a @ sep @ b) = (cur @ a) # Split_from sep [] b"
  using na
proof (induction a arbitrary: cur)
  case Nil
  show ?case unfolding sep by simp
next
  case (Cons c a)
  from Cons.prems have np: "\<not> prefix sep (c # a)" and ns: "\<not> sublist sep a"
    by (simp_all add: sublist_Cons_right)
  have ne: "take (length sep) (c # a @ sep @ b) \<noteq> sep"
  proof (cases a)
    case Nil
    then show ?thesis unfolding sep by simp
  next
    case a: (Cons x a')
    show ?thesis
    proof (cases a')
      case Nil
      with a show ?thesis unfolding sep by simp
    next
      case (Cons y a'')
      with a np show ?thesis unfolding sep by (auto simp: prefix_def)
    qed
  qed
  have "Split_from sep cur ((c # a) @ sep @ b) = Split_from sep (cur @ [c]) (a @ sep @ b)"
    using ne by simp
  then show ?case using Cons.IH[OF ns, of "cur @ [c]"] by simp
qed

lemma Split_exactly_one:
  assumes "\<not> sublist ''[].'' a" "\<not> sublist ''[].'' b"
  shows "Split (a @ ''[].'' @ b) ''[].'' = [a, b]"
proof -
  have "Split_from ''[].'' [] (a @ ''[].'' @ b) = ([] @ a) # Split_from ''[].'' [] b"
    using assms(1) by (rule Split_from_first[OF refl])
  also have "Split_from ''[].'' [] b = [[] @ b]"
    using assms(2) by (intro Split_from_none) simp_all
  finally show ?thesis by (simp add: Split_def)
qed

lemma Split_not_one:
  assumes "\<not> (\<exists>a b. field = a @ ''[].'' @ b \<and> \<not> sublist ''[].'' a \<and> \<not> sublist ''[].'' b)"
  shows "Split field ''[].'' \<noteq> [x, y]"
proof
  assume "Split field ''[].'' = [x, y]"
  then have "Split_from ''[].'' [] field = [x, y]" by (simp add: Split_def)
  from Split_from_two[OF _ this] assms show False by auto
qed

lemma toStringSlice_strings:
  "toStringSlice v =
     (case v of
        VStrings strings \<Rightarrow> strings
      | VList items \<Rightarrow> [s. VString s \<leftarrow> items]
      | VString s \<Rightarrow> [s]
      | _ \<Rightarrow> [])"
proof (cases v)
  case (VList items)
  have "stringItems items = [s. VString s \<leftarrow> items]"
    by (induction items rule: stringItems.induct) simp_all
  with VList show ?thesis by simp
qed simp_all

lemma subFieldValues_strings:
  "subFieldValues subField items
     = [s. VMap object \<leftarrow> items, Some (VString s) \<leftarrow> [object subField], s \<noteq> []]"
  by (induction subField items rule: subFieldValues.induct)
     (auto split: option.splits val.splits)

lemma getEnrichmentOverrides_plain_key:
  assumes "\<not> (\<exists>a b. field = a @ ''[].'' @ b \<and> \<not> sublist ''[].'' a \<and> \<not> sublist ''[].'' b)"
  shows "getEnrichmentOverrides d field = (case d field of Some v \<Rightarrow> toStringSlice v | None \<Rightarrow> [])"
  using Split_not_one[OF assms]
  by (auto simp: getEnrichmentOverrides_def split: list.splits)

lemma getEnrichmentOverrides_path_key:
  "\<not> sublist ''[].'' a \<Longrightarrow> \<not> sublist ''[].'' b \<Longrightarrow>
   getEnrichmentOverrides d (a @ ''[].'' @ b) =
     (case d a of Some (VList items) \<Rightarrow> subFieldValues b items | _ \<Rightarrow> [])"
  using Split_exactly_one[of a b] by (simp add: getEnrichmentOverrides_def)

lemma keyed_addValue: "keyed m \<Longrightarrow> keyed (addValue umap e m v)"
  by (auto simp: keyed_def addValue_def Let_def split: option.splits)

lemma keyed_foldl_addValue: "keyed m \<Longrightarrow> keyed (foldl (addValue umap e) m vs)"
  by (induction vs arbitrary: m) (auto simp: keyed_addValue)

lemma keyed_addEntity: "keyed m \<Longrightarrow> keyed (addEntity umap tc ed m e)"
  by (simp add: addEntity_def keyed_foldl_addValue)

lemma keyed_groupEntities: "keyed (groupEntities umap es tc ed)"
proof -
  have "keyed m \<Longrightarrow> keyed (foldl (addEntity umap tc ed) m es)" for m
    by (induction es arbitrary: m) (auto simp: keyed_addEntity)
  moreover have "keyed Map.empty" by (simp add: keyed_def)
  ultimately show ?thesis unfolding groupEntities_def by blast
qed

lemma map_filter_keys:
  "set ks \<subseteq> dom m \<Longrightarrow> keyed m \<Longrightarrow> map eSlug (List.map_filter m ks) = ks"
  by (induction ks) (auto simp: keyed_def split: option.splits)

lemma set_map_filter_ran: "set ks = dom m \<Longrightarrow> set (List.map_filter m ks) = ran m"
proof -
  assume a: "set ks = dom m"
  have "set (List.map_filter m ks) = {y. \<exists>x. x \<in> set ks \<and> m x = Some y}"
    by (induction ks) (auto split: option.splits)
  also have "\<dots> = ran m" unfolding a ran_def by blast
  finally show ?thesis .
qed

lemma collect_distinct:
  "rangeOrder m ks \<Longrightarrow> keyed m \<Longrightarrow> distinct (map eSlug (collectEntries tc m ks))"
  unfolding collectEntries_def rangeOrder_def
  using map_filter_keys[of ks m] by (simp add: distinct_map_filter)

lemma collect_set:
  "rangeOrder m ks \<Longrightarrow>
   set (collectEntries tc m ks) = {g \<in> ran m. MinEntities tc \<le> int (length (Entities g))}"
  unfolding collectEntries_def rangeOrder_def
  using set_map_filter_ran[of ks m] by auto

lemma sorted_by_key_unique:
  fixes f :: "'a \<Rightarrow> 'k::linorder"
  assumes "distinct (map f xs)" "distinct (map f ys)" "set xs = set ys"
    "sorted (map f xs)" "sorted (map f ys)"
  shows "xs = ys"
proof -
  have "map f xs = map f ys"
    using assms by (intro sorted_distinct_set_unique) auto
  moreover have "inj_on f (set xs \<union> set ys)"
    using assms by (simp add: distinct_map)
  ultimately show ?thesis by (simp add: inj_on_map_eq_map)
qed

lemma sort_key_distinct_unique:
  fixes f :: "'a \<Rightarrow> 'k::linorder"
  assumes "distinct (map f xs)" "distinct (map f ys)" "set xs = set ys"
  shows "sort_key f xs = sort_key f ys"
proof (rule sorted_by_key_unique[where f = f])
  show "distinct (map f (sort_key f xs))" using assms(1) by (simp add: distinct_map)
  show "distinct (map f (sort_key f ys))" using assms(2) by (simp add: distinct_map)
  show "set (sort_key f xs) = set (sort_key f ys)" using assms(3) by simp
qed simp_all

lemma slug_Soup: "ToSlug (\<lambda>s. s) ''Soup'' = ''soup''" by code_simp

lemma slug_soup: "ToSlug (\<lambda>s. s) ''soup'' = ''soup''" by code_simp

lemma slug_Dessert: "ToSlug (\<lambda>s. s) ''Dessert'' = ''dessert''" by code_simp

lemma exGroups:
  "groupEntities (\<lambda>s. s) [exSoup, exCake, exBroth] (exCategory\<lparr>MinEntities := n\<rparr>) ed =
     [''soup'' \<mapsto> \<lparr>Name = ''Soup'', eSlug = ''soup'', Entities = [exSoup, exBroth]\<rparr>,
      ''dessert'' \<mapsto> \<lparr>Name = ''Dessert'', eSlug = ''dessert'', Entities = [exCake]\<rparr>]"
  by (rule ext)
     (simp add: groupEntities_def addEntity_def addValue_def extractValues_def lookupOverrides_def
      exSoup_def exCake_def exBroth_def exCategory_def slug_Soup slug_soup slug_Dessert Let_def)

lemma exGroups_dom:
  "dom (groupEntities (\<lambda>s. s) [exSoup, exCake, exBroth] (exCategory\<lparr>MinEntities := n\<rparr>) ed)
     = {''soup'', ''dessert''}"
  by (auto simp: exGroups)

lemma exGroups_soup:
  "groupEntities (\<lambda>s. s) [exSoup, exCake, exBroth] (exCategory\<lparr>MinEntities := n\<rparr>) ed ''soup''
     = Some exSoupEntry"
  by (simp add: exGroups exSoupEntry_def)


text \<open>
  Claim C5. For a taxonomy definition with a configured override key: when the override
  table has an entry for the entity's slug and the override extraction on it yields a
  non-empty list, the taxonomy values of the entity are exactly the override values.
  When the table is nil, has no entry for the slug, or the extraction yields nothing, the
  values are read from the entity's raw field: nothing when the field is absent; under
  the multi-value flag the strings of the list, in order (the items of a list that are
  not strings are passed over, and a single string counts as a list of one); without the
  flag the field itself when it is a non-empty string. The override extraction splits
  the key at \<open>[].\<close>. A key \<open>container[].sub\<close> with exactly one such separator reads the
  list under \<open>container\<close> and returns, in order, the non-empty strings found under \<open>sub\<close>
  in the items that are objects; every other key is the name of one field of the table
  entry, read as a list of strings in the same way as a raw field under the flag.
\<close>

theorem extractValues_override_precedence:
  assumes "EnrichmentOverrideField tc \<noteq> []"
  shows "(\<forall>table ed. enrichmentData = Some table \<and> table (Slug e) = Some ed
            \<and> getEnrichmentOverrides ed (EnrichmentOverrideField tc) \<noteq> []
          \<longrightarrow> extractValues e tc enrichmentData
                = getEnrichmentOverrides ed (EnrichmentOverrideField tc))
       \<and> (enrichmentData = None
            \<or> (\<exists>table. enrichmentData = Some table \<and> table (Slug e) = None)
            \<or> (\<exists>table ed. enrichmentData = Some table \<and> table (Slug e) = Some ed
                  \<and> getEnrichmentOverrides ed (EnrichmentOverrideField tc) = [])
          \<longrightarrow> extractValues e tc enrichmentData
                = (case Fields e (tcField tc) of
                     None \<Rightarrow> []
                   | Some v \<Rightarrow>
                       if MultiValue tc
                       then (case v of
                               VStrings strings \<Rightarrow> strings
                             | VList items \<Rightarrow> [s. VString s \<leftarrow> items]
                             | VString s \<Rightarrow> [s]
                             | _ \<Rightarrow> [])
                       else (case v of VString s \<Rightarrow> if s \<noteq> [] then [s] else [] | _ \<Rightarrow> [])))
       \<and> (\<forall>d container sub. \<not> sublist ''[].'' container \<and> \<not> sublist ''[].'' sub
          \<longrightarrow> getEnrichmentOverrides d (container @ ''[].'' @ sub)
                = (case d container of
                     Some (VList items) \<Rightarrow>
                       [s. VMap object \<leftarrow> items, Some (VString s) \<leftarrow> [object sub], s \<noteq> []]
                   | _ \<Rightarrow> []))
       \<and> (\<forall>d field.
            \<not> (\<exists>container sub. field = container @ ''[].'' @ sub
                  \<and> \<not> sublist ''[].'' container \<and> \<not> sublist ''[].'' sub)
          \<longrightarrow> getEnrichmentOverrides d field
                = (case d field of
                     None \<Rightarrow> []
                   | Some v \<Rightarrow>
                       (case v of
                          VStrings strings \<Rightarrow> strings
                        | VList items \<Rightarrow> [s. VString s \<leftarrow> items]
                        | VString s \<Rightarrow> [s]
                        | _ \<Rightarrow> [])))"
proof (intro conjI allI impI)
  fix table ed
  assume "enrichmentData = Some table \<and> table (Slug e) = Some ed
            \<and> getEnrichmentOverrides ed (EnrichmentOverrideField tc) \<noteq> []"
  with assms show "extractValues e tc enrichmentData
                = getEnrichmentOverrides ed (EnrichmentOverrideField tc)"
    by (simp add: extractValues_def lookupOverrides_def)
next
  assume "enrichmentData = None
            \<or> (\<exists>table. enrichmentData = Some table \<and> table (Slug e) = None)
            \<or> (\<exists>table ed. enrichmentData = Some table \<and> table (Slug e) = Some ed
                  \<and> getEnrichmentOverrides ed (EnrichmentOverrideField tc) = [])"
  then have "lookupOverrides e tc enrichmentData = []"
    by (auto simp: lookupOverrides_def)
  then have "extractValues e tc enrichmentData
                = (case Fields e (tcField tc) of
                     None \<Rightarrow> []
                   | Some v \<Rightarrow>
                       if MultiValue tc then toStringSlice v
                       else (case v of VString s \<Rightarrow> if s \<noteq> [] then [s] else [] | _ \<Rightarrow> []))"
    by (simp add: extractValues_def)
  then show "extractValues e tc enrichmentData
                = (case Fields e (tcField tc) of
                     None \<Rightarrow> []
                   | Some v \<Rightarrow>
                       if MultiValue tc
                       then (case v of
                               VStrings strings \<Rightarrow> strings
                             | VList items \<Rightarrow> [s. VString s \<leftarrow> items]
                             | VString s \<Rightarrow> [s]
                             | _ \<Rightarrow> [])
                       else (case v of VString s \<Rightarrow> if s \<noteq> [] then [s] else [] | _ \<Rightarrow> []))"
    by (simp only: toStringSlice_strings)
next
  fix d container sub
  assume "\<not> sublist ''[].'' container \<and> \<not> sublist ''[].'' sub"
  then have "getEnrichmentOverrides d (container @ ''[].'' @ sub)
                = (case d container of
                     Some (VList items) \<Rightarrow> subFieldValues sub items
                   | _ \<Rightarrow> [])"
    using getEnrichmentOverrides_path_key by blast
  then show "getEnrichmentOverrides d (container @ ''[].'' @ sub)
                = (case d container of
                     Some (VList items) \<Rightarrow>
                       [s. VMap object \<leftarrow> items, Some (VString s) \<leftarrow> [object sub], s \<noteq> []]
                   | _ \<Rightarrow> [])"
    by (simp only: subFieldValues_strings)
next
  fix d field
  assume "\<not> (\<exists>container sub. field = container @ ''[].'' @ sub
                  \<and> \<not> sublist ''[].'' container \<and> \<not> sublist ''[].'' sub)"
  then have "getEnrichmentOverrides d field
                = (case d field of Some v \<Rightarrow> toStringSlice v | None \<Rightarrow> [])"
    by (rule getEnrichmentOverrides_plain_key)
  then show "getEnrichmentOverrides d field
                = (case d field of
                     None \<Rightarrow> []
                   | Some v \<Rightarrow>
                       (case v of
                          VStrings strings \<Rightarrow> strings
                        | VList items \<Rightarrow> [s. VString s \<leftarrow> items]
                        | VString s \<Rightarrow> [s]
                        | _ \<Rightarrow> []))"
    by (simp only: toStringSlice_strings)
qed

theorem extractValues_override_precedence_witness:
  "EnrichmentOverrideField exIngredient \<noteq> []
   \<and> EnrichmentOverrideField exCuisine \<noteq> []
   \<and> exTable (Slug exBread) = Some exBreadData
   \<and> getEnrichmentOverrides exBreadData (EnrichmentOverrideField exIngredient) = [''flour'', ''water'']
   \<and> extractValues exBread exIngredient (Some exTable) = [''flour'', ''water'']
   \<and> extractValues exBread exIngredient None = [''2 cups Flour'', ''Water'']
   \<and> extractValues exBread exIngredient (Some Map.empty) = [''2 cups Flour'', ''Water'']
   \<and> getEnrichmentOverrides exBreadData (EnrichmentOverrideField exCuisine) = [''French'', ''Rustic'']
   \<and> extractValues exBread exCuisine (Some exTable) = [''French'', ''Rustic'']
   \<and> extractValues exBread exCuisine None = []"
proof -
  have f: "EnrichmentOverrideField exIngredient = ''ingredients'' @ ''[].'' @ ''normalizedName''"
    and g: "EnrichmentOverrideField exCuisine = ''cuisine''"
    by (simp_all add: exIngredient_def exCuisine_def)
  have ne: "EnrichmentOverrideField exIngredient \<noteq> []" "EnrichmentOverrideField exCuisine \<noteq> []"
    by (simp_all add: exIngredient_def exCuisine_def)
  have tb: "exTable (Slug exBread) = Some exBreadData" by (simp add: exTable_def exBread_def)
  have no: "\<not> sublist ''[].'' s" if "CHR ''['' \<notin> set s" for s
    using that set_mono_sublist[of "''[].''" s] by auto
  have plain: "\<not> (\<exists>container sub. ''cuisine'' = container @ ''[].'' @ sub
                  \<and> \<not> sublist ''[].'' container \<and> \<not> sublist ''[].'' sub)"
  proof
    assume "\<exists>container sub. ''cuisine'' = container @ ''[].'' @ sub
                  \<and> \<not> sublist ''[].'' container \<and> \<not> sublist ''[].'' sub"
    then obtain container sub where "''cuisine'' = container @ ''[].'' @ sub" by blast
    then have "CHR ''['' \<in> set ''cuisine''" by (metis in_set_conv_decomp append_Cons)
    then show False by simp
  qed
  note t = extractValues_override_precedence [OF ne(1), of _ exBread]
  note u = extractValues_override_precedence [OF ne(2), of _ exBread]
  have "getEnrichmentOverrides exBreadData (''ingredients'' @ ''[].'' @ ''normalizedName'')
        = (case exBreadData ''ingredients'' of
             Some (VList items) \<Rightarrow>
               [s. VMap object \<leftarrow> items, Some (VString s) \<leftarrow> [object ''normalizedName''], s \<noteq> []]
           | _ \<Rightarrow> [])"
    using conjunct1 [OF conjunct2 [OF conjunct2 [OF t[of None]]], rule_format,
        of "''ingredients''" "''normalizedName''" exBreadData] no
    by simp
  then have ov: "getEnrichmentOverrides exBreadData (EnrichmentOverrideField exIngredient)
                   = [''flour'', ''water'']"
    unfolding f by (simp add: exBreadData_def)
  have "getEnrichmentOverrides exBreadData ''cuisine''
        = (case exBreadData ''cuisine'' of
             None \<Rightarrow> []
           | Some v \<Rightarrow>
               (case v of
                  VStrings strings \<Rightarrow> strings
                | VList items \<Rightarrow> [s. VString s \<leftarrow> items]
                | VString s \<Rightarrow> [s]
                | _ \<Rightarrow> []))"
    using conjunct2 [OF conjunct2 [OF conjunct2 [OF u[of None]]], rule_format,
        of "''cuisine''" exBreadData] plain
    by blast
  then have pv: "getEnrichmentOverrides exBreadData (EnrichmentOverrideField exCuisine)
                   = [''French'', ''Rustic'']"
    unfolding g by (simp add: exBreadData_def)
  have a: "extractValues exBread exIngredient (Some exTable) = [''flour'', ''water'']"
    using t[of "Some exTable"] tb ov by simp
  have b: "extractValues exBread exIngredient None = [''2 cups Flour'', ''Water'']"
    using t[of None] by (simp add: exBread_def exIngredient_def)
  have c: "extractValues exBread exIngredient (Some Map.empty) = [''2 cups Flour'', ''Water'']"
    using t[of "Some Map.empty"] by (simp add: exBread_def exIngredient_def)
  have d: "extractValues exBread exCuisine (Some exTable) = [''French'', ''Rustic'']"
    using u[of "Some exTable"] tb pv by simp
  have e: "extractValues exBread exCuisine None = []"
    using u[of None] by (simp add: exBread_def exCuisine_def)
  show ?thesis using ne tb ov a b c pv d e by simp
qed

text \<open>
  Claim C1. Taxonomy build is deterministic: for fixed entities, configuration and override
  table, two runs of \<open>buildOne\<close>, whatever the orders in which they range over the map of
  groups, return the same taxonomy, entry for entry; and the entries of the result are in
  strictly ascending order of slug. The result does not depend on how \<open>sort.Slice\<close>
  arranges its input either: every arrangement of the collected entries that is sorted by
  slug is the list of entries returned.
\<close>

theorem buildOne_deterministic_sorted:
  assumes "rangeOrder (groupEntities umap entities tc enrichmentData) keys"
    and "rangeOrder (groupEntities umap entities tc enrichmentData) keys'"
  shows "buildOne umap keys entities tc enrichmentData = buildOne umap keys' entities tc enrichmentData
       \<and> sorted_wrt (<) (map eSlug (Entries (buildOne umap keys entities tc enrichmentData)))
       \<and> (\<forall>sorted_entries.
             set sorted_entries
               = set (collectEntries tc (groupEntities umap entities tc enrichmentData) keys)
             \<and> distinct (map eSlug sorted_entries) \<and> sorted (map eSlug sorted_entries)
             \<longrightarrow> sorted_entries = Entries (buildOne umap keys entities tc enrichmentData))"
proof -
  let ?g = "groupEntities umap entities tc enrichmentData"
  have k: "keyed ?g" by (rule keyed_groupEntities)
  have d: "distinct (map eSlug (collectEntries tc ?g keys))"
    "distinct (map eSlug (collectEntries tc ?g keys'))"
    using assms k by (simp_all add: collect_distinct)
  have s: "set (collectEntries tc ?g keys) = set (collectEntries tc ?g keys')"
    using assms by (simp add: collect_set)
  have eq: "sort_key eSlug (collectEntries tc ?g keys) = sort_key eSlug (collectEntries tc ?g keys')"
    using d s by (rule sort_key_distinct_unique)
  have "distinct (map eSlug (sort_key eSlug (collectEntries tc ?g keys)))"
    using d(1) by (simp add: distinct_map)
  then have "sorted_wrt (<) (map eSlug (sort_key eSlug (collectEntries tc ?g keys)))"
    by (simp add: strict_sorted_iff)
  moreover have "ys = sort_key eSlug (collectEntries tc ?g keys)"
    if "set ys = set (collectEntries tc ?g keys) \<and> distinct (map eSlug ys) \<and> sorted (map eSlug ys)"
    for ys
  proof (rule sorted_by_key_unique[where f = eSlug])
    show "distinct (map eSlug ys)" "sorted (map eSlug ys)" using that by simp_all
    show "distinct (map eSlug (sort_key eSlug (collectEntries tc ?g keys)))"
      using d(1) by (simp add: distinct_map)
    show "set ys = set (sort_key eSlug (collectEntries tc ?g keys))" using that by simp
    show "sorted (map eSlug (sort_key eSlug (collectEntries tc ?g keys)))" by simp
  qed
  ultimately show ?thesis using eq by (simp add: buildOne_def Let_def)
qed

theorem buildOne_deterministic_sorted_witness:
  "rangeOrder (groupEntities (\<lambda>s. s) [exSoup, exCake, exBroth] (exCategory\<lparr>MinEntities := 1\<rparr>) None)
     [''soup'', ''dessert'']
   \<and> rangeOrder (groupEntities (\<lambda>s. s) [exSoup, exCake, exBroth] (exCategory\<lparr>MinEntities := 1\<rparr>) None)
     [''dessert'', ''soup'']
   \<and> buildOne (\<lambda>s. s) [''soup'', ''dessert''] [exSoup, exCake, exBroth] (exCategory\<lparr>MinEntities := 1\<rparr>) None
     = buildOne (\<lambda>s. s) [''dessert'', ''soup''] [exSoup, exCake, exBroth] (exCategory\<lparr>MinEntities := 1\<rparr>) None
   \<and> sorted_wrt (<) (map eSlug (Entries
       (buildOne (\<lambda>s. s) [''soup'', ''dessert''] [exSoup, exCake, exBroth] (exCategory\<lparr>MinEntities := 1\<rparr>) None)))"
proof -
  have r1: "rangeOrder (groupEntities (\<lambda>s. s) [exSoup, exCake, exBroth] (exCategory\<lparr>MinEntities := 1\<rparr>) None)
     [''soup'', ''dessert'']"
    by (simp add: rangeOrder_def exGroups_dom)
  have r2: "rangeOrder (groupEntities (\<lambda>s. s) [exSoup, exCake, exBroth] (exCategory\<lparr>MinEntities := 1\<rparr>) None)
     [''dessert'', ''soup'']"
    by (auto simp: rangeOrder_def exGroups_dom)
  show ?thesis using r1 r2 buildOne_deterministic_sorted [OF r1 r2] by blast
qed

text \<open>
  Claim C4. With minimum-member threshold \<open>MinEntities tc\<close>, no entry of the built taxonomy
  has fewer members than the threshold, and every grouped entry whose member count equals
  or exceeds the threshold is in the built taxonomy; the built taxonomy holds grouped
  entries only.
\<close>

theorem buildOne_min_entities:
  assumes "rangeOrder (groupEntities umap entities tc enrichmentData) keys"
  shows "(\<forall>entry \<in> set (Entries (buildOne umap keys entities tc enrichmentData)).
            MinEntities tc \<le> int (length (Entities entry)))
       \<and> (\<forall>slug entry. groupEntities umap entities tc enrichmentData slug = Some entry
            \<and> MinEntities tc \<le> int (length (Entities entry))
            \<longrightarrow> entry \<in> set (Entries (buildOne umap keys entities tc enrichmentData)))
       \<and> set (Entries (buildOne umap keys entities tc enrichmentData))
            \<subseteq> ran (groupEntities umap entities tc enrichmentData)"
proof -
  let ?g = "groupEntities umap entities tc enrichmentData"
  have "set (Entries (buildOne umap keys entities tc enrichmentData)) =
        {g \<in> ran ?g. MinEntities tc \<le> int (length (Entities g))}"
    using collect_set[OF assms] by (simp add: buildOne_def Let_def)
  then show ?thesis by (auto simp: ran_def)
qed

theorem buildOne_min_entities_witness:
  "rangeOrder (groupEntities (\<lambda>s. s) [exSoup, exCake, exBroth] (exCategory\<lparr>MinEntities := 2\<rparr>) None)
     [''soup'', ''dessert'']
   \<and> length (Entities exSoupEntry) = 2
   \<and> exSoupEntry \<in> set (Entries
       (buildOne (\<lambda>s. s) [''soup'', ''dessert''] [exSoup, exCake, exBroth] (exCategory\<lparr>MinEntities := 2\<rparr>) None))
   \<and> length (Entities exDessertEntry) = 1
   \<and> exDessertEntry \<notin> set (Entries
       (buildOne (\<lambda>s. s) [''soup'', ''dessert''] [exSoup, exCake, exBroth] (exCategory\<lparr>MinEntities := 2\<rparr>) None))"
proof -
  let ?tc = "exCategory\<lparr>MinEntities := 2\<rparr>"
  have r: "rangeOrder (groupEntities (\<lambda>s. s) [exSoup, exCake, exBroth] ?tc None) [''soup'', ''dessert'']"
    by (simp add: rangeOrder_def exGroups_dom)
  note t = buildOne_min_entities [OF r]
  have l2: "length (Entities exSoupEntry) = 2" and l1: "length (Entities exDessertEntry) = 1"
    by (simp_all add: exSoupEntry_def exDessertEntry_def)
  have m: "MinEntities ?tc = 2" by simp
  have "exSoupEntry \<in> set (Entries (buildOne (\<lambda>s. s) [''soup'', ''dessert''] [exSoup, exCake, exBroth] ?tc None))"
    using t exGroups_soup[of 2 None] l2 m by force
  moreover have "exDessertEntry \<notin> set (Entries (buildOne (\<lambda>s. s) [''soup'', ''dessert''] [exSoup, exCake, exBroth] ?tc None))"
    using t l1 m by force
  ultimately show ?thesis using r l1 l2 by blast
qed

section \<open>Properties of the pagination\<close>

lemma wrap64_id: "- (2 ^ 63) \<le> x \<Longrightarrow> x < 2 ^ 63 \<Longrightarrow> wrap64 x = x"
  by (simp add: wrap64_def)

lemma wrap64_absorb: "wrap64 (wrap64 x - y) = wrap64 (x - y)"
proof -
  have "((x + 2 ^ 63) mod 2 ^ 64 - y) mod 2 ^ 64 = (x + 2 ^ 63 - y) mod (2 ^ 64 :: int)"
    by (rule mod_diff_left_eq)
  then show ?thesis by (simp add: wrap64_def algebra_simps)
qed

lemma ceil_div:
  fixes n p :: int
  assumes "0 < p"
  shows "(n + p - 1) div p = \<lceil>real_of_int n / real_of_int p\<rceil>"
proof -
  define q r where "q = n div p" and "r = n mod p"
  have n: "n = p * q + r" and r: "0 \<le> r" "r < p"
    using assms by (simp_all add: q_def r_def)
  have c: "\<lceil>real_of_int n / real_of_int p\<rceil> = (if r = 0 then q else q + 1)"
    using assms by (simp add: ceiling_divide_eq_div zdiv_zminus1_eq_if q_def r_def)
  show ?thesis
  proof (cases "r = 0")
    case True
    have "n + p - 1 = p * q + (p - 1)" using n True by simp
    then have "(n + p - 1) div p = q" using assms by (intro int_div_pos_eq[of _ _ _ "p - 1"]) auto
    with c True show ?thesis by simp
  next
    case False
    have "n + p - 1 = p * (q + 1) + (r - 1)" using n by (simp add: algebra_simps)
    then have "(n + p - 1) div p = q + 1" using assms r False
      by (intro int_div_pos_eq[of _ _ _ "r - 1"]) auto
    with c False show ?thesis by simp
  qed
qed

lemma pageCount_exact:
  assumes "0 < perPage" "0 \<le> n" "n + perPage - 1 < 2 ^ 63"
  shows "pageCount n perPage = max 1 \<lceil>real_of_int n / real_of_int perPage\<rceil>"
proof -
  have "sub64 (add64 n perPage) 1 = wrap64 (n + perPage - 1)"
    by (simp add: sub64_def add64_def wrap64_absorb)
  then have ab: "sub64 (add64 n perPage) 1 = n + perPage - 1"
    using assms by (simp add: wrap64_id)
  have nonneg: "0 \<le> (n + perPage - 1) div perPage"
    using assms by (simp add: pos_imp_zdiv_nonneg_iff)
  have le: "(n + perPage - 1) div perPage \<le> n + perPage - 1"
    using zdiv_mono2[of "n + perPage - 1" 1 perPage] assms by simp
  have q: "quo64 (n + perPage - 1) perPage = (n + perPage - 1) div perPage"
  proof (cases "n + perPage - 1 = 0")
    case True
    then show ?thesis by (simp add: quo64_def wrap64_def)
  next
    case False
    with assms have pos: "0 < n + perPage - 1" by simp
    have "quo64 (n + perPage - 1) perPage = wrap64 ((n + perPage - 1) div perPage)"
      using assms pos by (simp add: quo64_def)
    also have "\<dots> = (n + perPage - 1) div perPage"
      using nonneg le assms by (intro wrap64_id) auto
    finally show ?thesis .
  qed
  show ?thesis
    using nonneg by (simp add: pageCount_def ab q Let_def ceil_div[OF assms(1), symmetric] max_def)
qed

lemma telescope_int:
  fixes f :: "int \<Rightarrow> int"
  assumes "0 \<le> T"
  shows "(\<Sum>k \<in> {1..T}. f k - f (k - 1)) = f T - f 0"
  using assms
proof (induction T rule: int_ge_induct)
  case base
  show ?case by simp
next
  case (step i)
  have "{1..i + 1} = insert (i + 1) {1..i}" using step.hyps by auto
  then show ?case using step by simp
qed

lemma pageCount_bounds:
  assumes "0 < perPage" "0 \<le> n" "n + perPage - 1 < 2 ^ 63"
  shows "1 \<le> pageCount n perPage"
    and "(pageCount n perPage - 1) * perPage \<le> n"
    and "0 < n \<Longrightarrow> (pageCount n perPage - 1) * perPage \<le> n - 1"
    and "n \<le> pageCount n perPage * perPage"
proof -
  let ?q = "(n + perPage - 1) div perPage"
  have pc: "pageCount n perPage = max 1 ?q"
    using pageCount_exact[OF assms] ceil_div[OF assms(1), of n] by simp
  have lo: "?q * perPage \<le> n + perPage - 1"
    using assms(1) by (metis div_mult_mod_eq le_add_same_cancel1 pos_mod_sign)
  have "n + perPage - 1 < ?q * perPage + perPage"
    using assms(1) by (metis add.commute div_mult_mod_eq add_le_cancel_left linorder_not_le pos_mod_bound)
  then have hi: "n \<le> ?q * perPage" by simp
  have q0: "0 \<le> ?q" using assms by (simp add: pos_imp_zdiv_nonneg_iff)
  show "1 \<le> pageCount n perPage" by (simp add: pc)
  show "(pageCount n perPage - 1) * perPage \<le> n"
    using lo assms q0 by (auto simp: pc max_def algebra_simps)
  show "0 < n \<Longrightarrow> (pageCount n perPage - 1) * perPage \<le> n - 1"
    using lo assms q0 hi by (auto simp: pc max_def algebra_simps)
  show "n \<le> pageCount n perPage * perPage"
  proof (cases "1 \<le> ?q")
    case True
    with hi show ?thesis by (simp add: pc max_def)
  next
    case False
    with q0 have "?q = 0" by simp
    with hi have "n \<le> 0" by simp
    moreover have "0 \<le> pageCount n perPage * perPage"
      using assms(1) \<open>1 \<le> pageCount n perPage\<close> by simp
    ultimately show ?thesis by linarith
  qed
qed

lemma window_exact:
  assumes "0 < perPage" "perPage < 2 ^ 63" "int (length (Entities entry)) + perPage - 1 < 2 ^ 63"
    and "1 \<le> page" "page \<le> pageCount (int (length (Entities entry))) perPage"
  shows "windowSize entry page perPage taxonomyName =
           min (page * perPage) (int (length (Entities entry)))
           - min ((page - 1) * perPage) (int (length (Entities entry)))"
proof -
  let ?n = "int (length (Entities entry))"
  let ?T = "pageCount ?n perPage"
  have n0: "0 \<le> ?n" by simp
  note b = pageCount_bounds[OF assms(1) n0 assms(3)]
  have "(page - 1) * perPage \<le> (?T - 1) * perPage"
    using assms by (intro mult_right_mono) auto
  then have s_le: "(page - 1) * perPage \<le> ?n" using b(2) by linarith
  have s_ge: "0 \<le> (page - 1) * perPage" using assms by simp
  have page_lt: "page - 1 < 2 ^ 63"
  proof -
    have "page - 1 \<le> (page - 1) * perPage" using assms by (simp add: mult_le_cancel_left1)
    with s_le assms(1,3) show ?thesis by linarith
  qed
  have sub: "sub64 page 1 = page - 1"
    using assms(4) page_lt by (simp add: sub64_def wrap64_id)
  have st: "mul64 (page - 1) perPage = (page - 1) * perPage"
    using s_le s_ge assms(1,3) by (simp add: mul64_def wrap64_id)
  have e_lt: "(page - 1) * perPage + perPage < 2 ^ 63"
  proof (cases "0 < ?n")
    case True
    have "(page - 1) * perPage \<le> (?T - 1) * perPage"
      using assms by (intro mult_right_mono) auto
    with b(3)[OF True] assms(3) show ?thesis by linarith
  next
    case False
    then have "?n = 0" by simp
    with s_le s_ge have z: "(page - 1) * perPage = 0" by linarith
    show ?thesis unfolding z using assms(2) by simp
  qed
  have "wrap64 ((page - 1) * perPage + perPage) = (page - 1) * perPage + perPage"
    using e_lt s_ge assms(1) by (intro wrap64_id) linarith+
  then have en: "add64 ((page - 1) * perPage) perPage = page * perPage"
    by (simp add: add64_def algebra_simps)
  show ?thesis
    using assms(1) s_le
    by (simp add: windowSize_def ComputePagination_def Let_def sub st en min_def)
qed

text \<open>
  Claim C2, as amended. For every entry and every positive page size such that member count
  plus page size minus 1 does not exceed the largest 64-bit integer: \<open>ComputePagination\<close>
  returns, for every page, \<open>TotalPages = max 1 (ceil (count / pageSize))\<close>, so an entry
  without members still has one page; the window sizes \<open>EndIndex - StartIndex\<close> of the pages
  \<open>1 .. TotalPages\<close> add up to the member count; and the hub URL of page 1 has no page-number
  suffix, while the URL of every page \<open>p > 1\<close> carries the suffix \<open>-page-p\<close>.
\<close>

theorem pagination_invariant:
  assumes "0 < perPage" and "perPage < 2 ^ 63"
    and "int (length (Entities entry)) + perPage - 1 < 2 ^ 63"
  shows "(\<forall>page. \<exists>info. ComputePagination entry page perPage taxonomyName = Some info
            \<and> TotalPages info
                = max 1 \<lceil>real (length (Entities entry)) / real_of_int perPage\<rceil>)
       \<and> (\<Sum>page \<in> {1 .. max 1 \<lceil>real (length (Entities entry)) / real_of_int perPage\<rceil>}.
             windowSize entry page perPage taxonomyName)
           = int (length (Entities entry))
       \<and> HubPageURL taxonomyName (eSlug entry) 1
           = ''/'' @ taxonomyName @ ''/'' @ eSlug entry @ ''.html''
       \<and> (\<forall>p. 1 < p \<longrightarrow>
             HubPageURL taxonomyName (eSlug entry) p
               = ''/'' @ taxonomyName @ ''/'' @ eSlug entry @ ''-page-'' @ itoa p @ ''.html'')"
proof -
  let ?n = "int (length (Entities entry))"
  let ?T = "max 1 \<lceil>real (length (Entities entry)) / real_of_int perPage\<rceil>"
  have n0: "0 \<le> ?n" by simp
  have pc: "pageCount ?n perPage = ?T"
    using pageCount_exact[OF assms(1) n0 assms(3)] by simp
  note b = pageCount_bounds[OF assms(1) n0 assms(3)]
  have total: "\<exists>info. ComputePagination entry page perPage taxonomyName = Some info
                 \<and> TotalPages info = ?T" for page
    using assms(1) pc by (simp add: ComputePagination_def Let_def)
  let ?f = "\<lambda>k. min (k * perPage) ?n"
  have "(\<Sum>page \<in> {1..?T}. windowSize entry page perPage taxonomyName)
        = (\<Sum>page \<in> {1..?T}. ?f page - ?f (page - 1))"
    using window_exact[OF assms] pc by (intro sum.cong) auto
  also have "\<dots> = ?f ?T - ?f 0"
    by (rule telescope_int) simp
  also have "\<dots> = ?n"
    using b(4) pc by simp
  finally have windows: "(\<Sum>page \<in> {1..?T}. windowSize entry page perPage taxonomyName) = ?n" .
  show ?thesis
    using total windows by (simp add: HubPageURL_def)
qed

theorem pagination_invariant_witness:
  "(0::int) < 1 \<and> (1::int) < 2 ^ 63 \<and> int (length (Entities exSoupEntry)) + 1 - 1 < 2 ^ 63
   \<and> map_option TotalPages (ComputePagination exSoupEntry 2 1 ''category'') = Some 2
   \<and> (\<Sum>page \<in> {1 .. 2}. windowSize exSoupEntry page 1 ''category'') = 2
   \<and> HubPageURL ''category'' ''soup'' 1 = ''/category/soup.html''
   \<and> HubPageURL ''category'' ''soup'' 2 = ''/category/soup-page-2.html''"
proof -
  have h: "(0::int) < 1" "(1::int) < 2 ^ 63" "int (length (Entities exSoupEntry)) + 1 - 1 < 2 ^ 63"
    by (simp_all add: exSoupEntry_def)
  have len: "length (Entities exSoupEntry) = 2" and slug: "eSlug exSoupEntry = ''soup''"
    by (simp_all add: exSoupEntry_def)
  note t = pagination_invariant [OF h, of "''category''"]
  have T: "max 1 \<lceil>real (length (Entities exSoupEntry)) / real_of_int 1\<rceil> = 2"
    by (simp add: len)
  from t obtain info where "ComputePagination exSoupEntry 2 1 ''category'' = Some info"
    and "TotalPages info = 2" unfolding T by blast
  then have a: "map_option TotalPages (ComputePagination exSoupEntry 2 1 ''category'') = Some 2"
    by simp
  have b: "(\<Sum>page \<in> {1 .. 2}. windowSize exSoupEntry page 1 ''category'') = 2"
    using t unfolding T len by simp
  have c: "HubPageURL ''category'' ''soup'' 1 = ''/category/soup.html''"
    using t unfolding slug by simp
  have two: "itoa 2 = ''2''" by code_simp
  have d: "HubPageURL ''category'' ''soup'' 2 = ''/category/soup-page-2.html''"
    using t unfolding slug by (simp add: two)
  show ?thesis using h a b c d by simp
qed

text \<open>
  The claim as stated, for every positive page size, fails where the sum
  \<open>total + perPage - 1\<close> wraps: with two members and a page size of \<open>2^63 - 1\<close> the sum is
  \<open>-2^63\<close>, the quotient is \<open>-1\<close>, which is not 0 and is returned as \<open>TotalPages\<close>, where
  the claim asks for 1.
\<close>

theorem pagination_overflow_counterexample:
  "(0::int) < 9223372036854775807 \<and> (9223372036854775807::int) < 2 ^ 63
   \<and> length (Entities exSoupEntry) = 2
   \<and> map_option TotalPages (ComputePagination exSoupEntry 1 9223372036854775807 ''category'')
       = Some (- 1)
   \<and> max 1 \<lceil>real (length (Entities exSoupEntry)) / real_of_int 9223372036854775807\<rceil> = 1"
proof -
  have len: "length (Entities exSoupEntry) = 2" by (simp add: exSoupEntry_def)
  have "pageCount 2 9223372036854775807 = - 1"
    by (simp add: pageCount_def quo64_def sub64_def add64_def wrap64_def)
  then have "map_option TotalPages (ComputePagination exSoupEntry 1 9223372036854775807 ''category'')
       = Some (- 1)"
    by (simp add: ComputePagination_def Let_def len)
  moreover have "\<lceil>(2::real) / 9223372036854775807\<rceil> = 1"
    by (simp add: ceiling_eq_iff)
  ultimately show ?thesis using len by simp
qed

section \<open>Properties of the letter groups\<close>









section \<open>Properties of the sitemap files\<close>

lemma chunkLoop_concat: "0 < n \<Longrightarrow> concat (chunkLoop es n i) = drop i es"
proof (induction es n i rule: chunkLoop.induct)
  case (1 entries chunkSize i)
  show ?case
  proof (cases "i < length entries")
    case True
    have "concat (chunkLoop entries chunkSize i)
          = take chunkSize (drop i entries) @ drop (i + chunkSize) entries"
      using 1 True by (subst chunkLoop.simps) simp
    also have "\<dots> = drop i entries"
      by (metis add.commute append_take_drop_id drop_drop)
    finally show ?thesis .
  next
    case False
    then show ?thesis by (subst chunkLoop.simps) simp
  qed
qed

lemma chunkLoop_sizes:
  "c \<in> set (chunkLoop es n i) \<Longrightarrow> c \<noteq> [] \<and> length c \<le> n"
proof (induction es n i rule: chunkLoop.induct)
  case (1 entries chunkSize i)
  from "1.prems" have ok: "0 < chunkSize \<and> i < length entries"
    by (subst (asm) chunkLoop.simps) (auto split: if_splits)
  with "1.prems" have "c = take chunkSize (drop i entries)
      \<or> c \<in> set (chunkLoop entries chunkSize (i + chunkSize))"
    by (subst (asm) chunkLoop.simps) simp
  then show ?case using 1 ok by auto
qed

lemma ceil_step:
  fixes c m :: nat
  assumes "0 < c" "0 < m"
  shows "(m + c - 1) div c = Suc ((m - c + c - 1) div c)"
proof (cases "c \<le> m")
  case True
  then have "m + c - 1 = (m - c + c - 1) + c" using assms by simp
  then show ?thesis using assms by (simp only: div_add_self2)
next
  case False
  then have "m - c + c - 1 < c" using assms by simp
  then have z: "(m - c + c - 1) div c = 0" by simp
  have "(m + c - 1) div c = 1"
    using assms False by (intro div_nat_eqI) auto
  with z show ?thesis by simp
qed

lemma chunkLoop_length:
  "0 < n \<Longrightarrow> length (chunkLoop es n i) = (length es - i + n - 1) div n"
proof (induction es n i rule: chunkLoop.induct)
  case (1 entries chunkSize i)
  show ?case
  proof (cases "i < length entries")
    case True
    have "length (chunkLoop entries chunkSize i)
          = Suc ((length entries - (i + chunkSize) + chunkSize - 1) div chunkSize)"
      using 1 True by (subst chunkLoop.simps) simp
    also have "\<dots> = Suc ((length entries - i - chunkSize + chunkSize - 1) div chunkSize)"
      by (simp add: diff_diff_left)
    also have "\<dots> = (length entries - i + chunkSize - 1) div chunkSize"
      using ceil_step[of chunkSize "length entries - i"] True "1.prems" by simp
    finally show ?thesis .
  next
    case False
    then have "length entries - i + chunkSize - 1 < chunkSize" using "1.prems" by simp
    with False show ?thesis by (subst chunkLoop.simps) simp
  qed
qed

lemma chunkLoop_nth:
  "0 < n \<Longrightarrow> k < length (chunkLoop es n i) \<Longrightarrow>
   chunkLoop es n i ! k = take n (drop (i + k * n) es)"
proof (induction es n i arbitrary: k rule: chunkLoop.induct)
  case (1 entries chunkSize i)
  from "1.prems"(2) have ok: "i < length entries"
    by (subst (asm) chunkLoop.simps) (auto split: if_splits)
  have unfold: "chunkLoop entries chunkSize i
     = take chunkSize (drop i entries) # chunkLoop entries chunkSize (i + chunkSize)"
    using ok "1.prems" by (subst chunkLoop.simps) simp
  show ?case
  proof (cases k)
    case 0
    then show ?thesis by (simp add: unfold)
  next
    case (Suc j)
    with "1.prems" unfold have "j < length (chunkLoop entries chunkSize (i + chunkSize))" by simp
    then have "chunkLoop entries chunkSize (i + chunkSize) ! j
               = take chunkSize (drop (i + chunkSize + j * chunkSize) entries)"
      using 1 ok by simp
    then show ?thesis by (simp add: unfold Suc algebra_simps)
  qed
qed

lemma enumerate_map_nth:
  "map (\<lambda>(i, x). f i x) (enumerate 0 xs) = map (\<lambda>i. f i (xs ! i)) [0 ..< length xs]"
  by (rule nth_equalityI) (simp_all add: nth_enumerate_eq)

lemma chunk_count_ceiling:
  assumes "0 < M"
  shows "int ((n + nat M - 1) div nat M) = \<lceil>real n / real_of_int M\<rceil>"
proof -
  have "int ((n + nat M - 1) div nat M) = (int n + M - 1) div M"
    using assms by (simp add: zdiv_int of_nat_diff)
  then show ?thesis using ceil_div[OF assms, of "int n"] by simp
qed

lemma urlCount_chunks:
  "sum_list (map urlCount (filter (\<lambda>f. \<not> isIndexFile f) (map (\<lambda>i. chunkFile i (chunks ! i)) [0 ..< length chunks])))
   = length (concat chunks)"
proof -
  have "filter (\<lambda>f. \<not> isIndexFile f) (map (\<lambda>i. chunkFile i (chunks ! i)) [0 ..< length chunks])
        = map (\<lambda>i. chunkFile i (chunks ! i)) [0 ..< length chunks]"
    by (simp add: filter_id_conv isIndexFile_def chunkFile_def generateSitemap_def)
  moreover have "map urlCount (map (\<lambda>i. chunkFile i (chunks ! i)) [0 ..< length chunks])
        = map length chunks"
    by (rule nth_equalityI) (simp_all add: urlCount_def chunkFile_def generateSitemap_def)
  ultimately show ?thesis by (simp add: length_concat)
qed

text \<open>
  Claim C3. For every list of accumulated sitemap entries and every positive per-file
  maximum \<open>M\<close>: a list of at most \<open>M\<close> entries gives the single file \<open>sitemap.xml\<close> with
  all entries; a longer list gives \<open>ceil (count / M)\<close> chunk files, each with at least one
  and at most \<open>M\<close> entries, chunk \<open>i\<close> holding the entries from position \<open>i * M\<close> on, so
  that the chunks in sequence are the list, named \<open>sitemap-1.xml\<close>, \<open>sitemap-2.xml\<close>, ...,
  preceded by the index file \<open>sitemap.xml\<close> with one reference per chunk file, each stamped
  with the last-modified date of the first accumulated entry. In both cases the URL entries
  of the files that are not the index add up to the number of entries.
\<close>

theorem sitemap_split:
  assumes "0 < M"
  shows "(int (length entries) \<le> M \<longrightarrow>
            GenerateSitemapFiles entries baseURL M
              = Some [\<lparr>Filename = ''sitemap.xml'', Content = UrlSet entries\<rparr>])
       \<and> (M < int (length entries) \<longrightarrow>
            (\<exists>chunks.
               GenerateSitemapFiles entries baseURL M
                 = Some (\<lparr>Filename = ''sitemap.xml'',
                          Content = SitemapIndex
                            (map (\<lambda>i. \<lparr>loc = baseURL @ ''/sitemap-'' @ itoa (int i + 1) @ ''.xml'',
                                       lastmod = Lastmod (hd entries)\<rparr>)
                               [0 ..< length chunks])\<rparr>
                         # map (\<lambda>i. \<lparr>Filename = ''sitemap-'' @ itoa (int i + 1) @ ''.xml'',
                                      Content = UrlSet (chunks ! i)\<rparr>)
                             [0 ..< length chunks])
               \<and> int (length chunks) = \<lceil>real (length entries) / real_of_int M\<rceil>
               \<and> concat chunks = entries
               \<and> (\<forall>c \<in> set chunks. c \<noteq> [] \<and> int (length c) \<le> M)
               \<and> (\<forall>i < length chunks. chunks ! i = take (nat M) (drop (i * nat M) entries))))
       \<and> (\<exists>files. GenerateSitemapFiles entries baseURL M = Some files
            \<and> sum_list (map urlCount (filter (\<lambda>f. \<not> isIndexFile f) files)) = length entries)"
proof -
  let ?single = "[\<lparr>Filename = ''sitemap.xml'', Content = UrlSet entries\<rparr>]"
  let ?chunks = "chunkLoop entries (nat M) 0"
  let ?index = "\<lparr>Filename = ''sitemap.xml'',
                 Content = SitemapIndex
                   (map (\<lambda>i. \<lparr>loc = baseURL @ ''/sitemap-'' @ itoa (int i + 1) @ ''.xml'',
                              lastmod = Lastmod (hd entries)\<rparr>)
                      [0 ..< length ?chunks])\<rparr>"
  let ?parts = "map (\<lambda>i. \<lparr>Filename = ''sitemap-'' @ itoa (int i + 1) @ ''.xml'',
                            Content = UrlSet (?chunks ! i)\<rparr>) [0 ..< length ?chunks]"
  have n: "0 < nat M" using assms by simp
  have small: "GenerateSitemapFiles entries baseURL M = Some ?single"
    if "int (length entries) \<le> M"
    using that assms by (simp add: GenerateSitemapFiles_def generateSitemap_def)
  have big: "GenerateSitemapFiles entries baseURL M = Some (?index # ?parts)"
    if "M < int (length entries)"
  proof -
    from that assms have ne: "entries \<noteq> []" by auto
    then have lm: "(case entries of [] \<Rightarrow> [] | first # _ \<Rightarrow> Lastmod first) = Lastmod (hd entries)"
      by (cases entries) simp_all
    have ce: "chunkEntries entries M = Some ?chunks"
      using ne assms by (simp add: chunkEntries_def)
    show ?thesis
      using that assms
      by (simp add: GenerateSitemapFiles_def ce lm enumerate_map_nth generateSitemapIndex_def
          indexEntry_def chunkFile_def chunkFilename_def generateSitemap_def del: upt.simps)
  qed
  have cnt: "int (length ?chunks) = \<lceil>real (length entries) / real_of_int M\<rceil>"
    using chunkLoop_length[OF n, of entries 0] chunk_count_ceiling[OF assms, of "length entries"]
    by simp
  have cat: "concat ?chunks = entries"
    using chunkLoop_concat[OF n, of entries 0] by simp
  have sz: "\<forall>c \<in> set ?chunks. c \<noteq> [] \<and> int (length c) \<le> M"
    using chunkLoop_sizes[of _ entries "nat M" 0] assms by fastforce
  have nth: "\<forall>i < length ?chunks. ?chunks ! i = take (nat M) (drop (i * nat M) entries)"
    using chunkLoop_nth[OF n, of _ entries 0] by simp
  have total: "\<exists>files. GenerateSitemapFiles entries baseURL M = Some files
            \<and> sum_list (map urlCount (filter (\<lambda>f. \<not> isIndexFile f) files)) = length entries"
  proof (cases "int (length entries) \<le> M")
    case True
    then show ?thesis using small by (simp add: urlCount_def isIndexFile_def)
  next
    case False
    then have b: "GenerateSitemapFiles entries baseURL M = Some (?index # ?parts)"
      using big by simp
    have "sum_list (map urlCount (filter (\<lambda>f. \<not> isIndexFile f) (?index # ?parts)))
          = length (concat ?chunks)"
      using urlCount_chunks[of ?chunks]
      by (simp add: isIndexFile_def chunkFile_def chunkFilename_def generateSitemap_def del: upt.simps)
    with b cat show ?thesis by simp
  qed
  show ?thesis
    using small big cnt cat sz nth total by blast
qed

theorem sitemap_split_witness:
  "(0::int) < 2
   \<and> (2::int) < int (length exSitemap)
   \<and> map_option (map Filename) (GenerateSitemapFiles exSitemap ''https://example.org'' 2)
       = Some [''sitemap.xml'', ''sitemap-1.xml'', ''sitemap-2.xml'', ''sitemap-3.xml'']
   \<and> map_option (\<lambda>files. sum_list (map urlCount (filter (\<lambda>f. \<not> isIndexFile f) files)))
         (GenerateSitemapFiles exSitemap ''https://example.org'' 2)
       = Some 5
   \<and> int (length (take 2 exSitemap)) \<le> 2
   \<and> GenerateSitemapFiles (take 2 exSitemap) ''https://example.org'' 2
       = Some [\<lparr>Filename = ''sitemap.xml'', Content = UrlSet (take 2 exSitemap)\<rparr>]"
proof -
  have pos: "(0::int) < 2" by simp
  have len: "length exSitemap = 5" by (simp add: exSitemap_def)
  have names: "map_option (map Filename) (GenerateSitemapFiles exSitemap ''https://example.org'' 2)
       = Some [''sitemap.xml'', ''sitemap-1.xml'', ''sitemap-2.xml'', ''sitemap-3.xml'']"
    by code_simp
  from sitemap_split [OF pos, of exSitemap "''https://example.org''"]
  obtain files where "GenerateSitemapFiles exSitemap ''https://example.org'' 2 = Some files"
    and "sum_list (map urlCount (filter (\<lambda>f. \<not> isIndexFile f) files)) = length exSitemap"
    by blast
  then have count: "map_option (\<lambda>files. sum_list (map urlCount (filter (\<lambda>f. \<not> isIndexFile f) files)))
         (GenerateSitemapFiles exSitemap ''https://example.org'' 2) = Some 5"
    by (simp add: len)
  have short: "int (length (take 2 exSitemap)) \<le> 2" by simp
  have single: "GenerateSitemapFiles (take 2 exSitemap) ''https://example.org'' 2
       = Some [\<lparr>Filename = ''sitemap.xml'', Content = UrlSet (take 2 exSitemap)\<rparr>]"
    using sitemap_split [OF pos, of "take 2 exSitemap" "''https://example.org''"] short by blast
  show ?thesis using pos len names count short single by simp
qed

section \<open>Properties of the loader\<close>

lemma loadEntries_sources:
  "map SourceFile (loadEntries umap readRecord joinPath source dataDir entries)
   = map (\<lambda>entry. joinPath dataDir (deName entry))
       (filter (loadable readRecord joinPath dataDir) entries)"
  by (induction entries) (auto simp: loadable_def parseFile_def split: sum.splits)

lemma buildSlugMap_snoc: "buildSlugMap (es @ [e]) = (buildSlugMap es)(Slug e \<mapsto> e)"
  by (simp add: buildSlugMap_def)

lemma buildSlugMap_dom: "dom (buildSlugMap es) = Slug ` set es"
proof (induction es rule: rev_induct)
  case Nil
  show ?case by (simp add: buildSlugMap_def)
next
  case (snoc x xs)
  then show ?case
    by (subst buildSlugMap_snoc, subst dom_fun_upd) simp
qed

lemma buildSlugMap_last:
  "e \<in> set es \<Longrightarrow> buildSlugMap es (Slug e) = Some (last (filter (\<lambda>x. Slug x = Slug e) es))"
proof (induction es rule: rev_induct)
  case Nil
  then show ?case by simp
next
  case (snoc x xs)
  then show ?case by (auto simp: buildSlugMap_snoc)
qed

text \<open>
  Claim C7 says that the slug of every loaded record is the result of \<open>ToSlug\<close> in both
  derivation modes. \<open>deriveSlug\<close> applies \<open>ToSlug\<close> to the value of a designated field, and
  returns the file name without its extension unchanged in the filename mode: the file
  \<open>Hello World.md\<close> gets the slug \<open>Hello World\<close>, not \<open>hello-world\<close>, while the same
  string under a designated field gets \<open>hello-world\<close>.
\<close>

theorem deriveSlug_filename_not_canonical:
  "deriveSlug (\<lambda>s. s) ''filename'' ''data/Hello World.md'' Map.empty = ''Hello World''
   \<and> ToSlug (\<lambda>s. s) ''Hello World'' = ''hello-world''
   \<and> deriveSlug (\<lambda>s. s) ''field:title'' ''data/x.md'' [''title'' \<mapsto> VString ''Hello World'']
       = ''hello-world''"
  by code_simp

text \<open>
  Claim C8, as amended. The loader returns one entity for every regular \<open>.md\<close> file of the
  data directory that parses, in the order of the directory listing, and removes none of
  them when slugs coincide. One entity per slug is kept only in the slug lookup that
  \<open>Build\<close> makes from the list: its keys are the slugs of the list, and of the entities
  that share a slug the last one in list order is the one stored.
\<close>

theorem Load_keeps_duplicates_last_wins:
  assumes "readDir dataDir = Inr dirEntries"
  shows "(\<exists>entities. Load umap readDir readRecord joinPath source dataDir = Inr entities
            \<and> map SourceFile entities
                = map (\<lambda>entry. joinPath dataDir (deName entry))
                    (filter (loadable readRecord joinPath dataDir) dirEntries)
            \<and> dom (buildSlugMap entities) = Slug ` set entities
            \<and> (\<forall>e \<in> set entities.
                  buildSlugMap entities (Slug e)
                    = Some (last (filter (\<lambda>x. Slug x = Slug e) entities))))"
  using assms
  by (simp add: Load_def loadEntries_sources buildSlugMap_dom buildSlugMap_last)

theorem Load_keeps_duplicates_last_wins_witness:
  "exDir ''data'' = Inr [\<lparr>deName = ''a.md'', deIsDir = False\<rparr>, \<lparr>deName = ''b.md'', deIsDir = False\<rparr>]
   \<and> map_sum id (map SourceFile) (Load (\<lambda>s. s) exDir exRecord exJoin ''field:slug'' ''data'')
       = Inr [''data/a.md'', ''data/b.md'']
   \<and> map_sum id (\<lambda>entities. map_option SourceFile (buildSlugMap entities ''apple-pie''))
         (Load (\<lambda>s. s) exDir exRecord exJoin ''field:slug'' ''data'')
       = Inr (Some ''data/b.md'')"
proof -
  have d: "exDir ''data'' = Inr [\<lparr>deName = ''a.md'', deIsDir = False\<rparr>, \<lparr>deName = ''b.md'', deIsDir = False\<rparr>]"
    by (simp add: exDir_def)
  have slug: "ToSlug (\<lambda>s. s) ''Apple Pie'' = ''apple-pie''" by code_simp
  from Load_keeps_duplicates_last_wins [where readDir = exDir and dataDir = "''data''"
      and umap = "\<lambda>s. s" and readRecord = exRecord and joinPath = exJoin
      and source = "''field:slug''", OF d]
  obtain entities where l: "Load (\<lambda>s. s) exDir exRecord exJoin ''field:slug'' ''data'' = Inr entities"
    and src: "map SourceFile entities
                = map (\<lambda>entry. exJoin ''data'' (deName entry))
                    (filter (loadable exRecord exJoin ''data'')
                       [\<lparr>deName = ''a.md'', deIsDir = False\<rparr>, \<lparr>deName = ''b.md'', deIsDir = False\<rparr>])"
    and lastw: "\<forall>e \<in> set entities.
                  buildSlugMap entities (Slug e) = Some (last (filter (\<lambda>x. Slug x = Slug e) entities))"
    by blast
  have ents: "entities = loadEntries (\<lambda>s. s) exRecord exJoin ''field:slug'' ''data''
      [\<lparr>deName = ''a.md'', deIsDir = False\<rparr>, \<lparr>deName = ''b.md'', deIsDir = False\<rparr>]"
    using l by (simp add: Load_def d)
  have slugs: "map Slug entities = [''apple-pie'', ''apple-pie'']"
    by (simp add: ents parseFile_def exRecord_def deriveSlug_def slug HasSuffix_def)
  have srcs: "map SourceFile entities = [''data/a.md'', ''data/b.md'']"
    using src by (simp add: loadable_def exRecord_def exJoin_def HasSuffix_def)
  from slugs srcs obtain e1 e2 where e: "entities = [e1, e2]"
    and s1: "Slug e1 = ''apple-pie''" and s2: "Slug e2 = ''apple-pie''"
    and f2: "SourceFile e2 = ''data/b.md''"
    by (cases entities; cases "tl entities") auto
  have "buildSlugMap entities (Slug e2) = Some (last (filter (\<lambda>x. Slug x = Slug e2) entities))"
    using lastw e by simp
  then have "buildSlugMap entities ''apple-pie'' = Some e2"
    using e s1 s2 by simp
  then show ?thesis using d l srcs f2 by simp
qed

text \<open>
  The claim as stated fails: two records whose designated field canonicalizes to the same
  slug are both in the list that \<open>Load\<close> returns.
\<close>

theorem Load_duplicate_slug_counterexample:
  "map_sum id (map Slug) (Load (\<lambda>s. s) exDir exRecord exJoin ''field:slug'' ''data'')
     = Inr [''apple-pie'', ''apple-pie'']
   \<and> \<not> distinct [''apple-pie'', ''apple-pie'']"
proof -
  have slug: "ToSlug (\<lambda>s. s) ''Apple Pie'' = ''apple-pie''" by code_simp
  show ?thesis
    by (simp add: Load_def exDir_def parseFile_def exRecord_def deriveSlug_def slug HasSuffix_def)
qed

section \<open>Properties of the build pass\<close>






lemma addSitemapEntry_errors [simp]:
  "entityErrors (addSitemapEntry w cfg path priority changefreq st) = entityErrors st"
  by (simp add: addSitemapEntry_def)












lemma wrapFailure_Panic [simp]: "wrapFailure context f = Panic p \<longleftrightarrow> f = Panic p"
  by (cases f) (simp_all add: wrapFailure_def)



































end
